theory Spec2Isabelle
  imports Main "HOL-Library.Sublist"
begin

section \<open>string\_utils.h: character classes, case folding and trimming\<close>

text \<open>
  \<^verbatim>\<open>std::string\<close> is a sequence of 8-bit characters, modelled as \<^typ>\<open>string\<close>.
  \<^verbatim>\<open>std::isspace\<close> and \<^verbatim>\<open>std::tolower\<close> are taken in the "C" locale: the white-space
  characters are space, \<^verbatim>\<open>\t \n \v \f \r\<close>, and only \<^verbatim>\<open>A..Z\<close> have a lower-case form;
  a byte from 0x80 on is no white space and is its own lower case.
\<close>

definition isspace :: "char \<Rightarrow> bool" where
  "isspace c = (c = CHR 0x20 \<or> c = CHR 0x09 \<or> c = CHR 0x0A \<or> c = CHR 0x0B
     \<or> c = CHR 0x0C \<or> c = CHR 0x0D)"

definition tolower :: "char \<Rightarrow> char" where
  "tolower c = (let n = (of_char c :: nat) in if 65 \<le> n \<and> n \<le> 90 then char_of (n + 32) else c)"

text \<open>\<^verbatim>\<open>make_lower(const std::string&)\<close>: \<^verbatim>\<open>std::transform\<close> with \<^verbatim>\<open>tolower\<close>.\<close>

definition make_lower :: "string \<Rightarrow> string" where
  "make_lower str = map tolower str"

text \<open>\<^verbatim>\<open>ltrim(std::string&)\<close>: erase from the start up to the first non-space character.\<close>

definition ltrim :: "string \<Rightarrow> string" where
  "ltrim s = dropWhile isspace s"

text \<open>\<^verbatim>\<open>ltrim(std::string&, char c)\<close>: erase from the start up to the first character
  that is not \<open>c\<close>.\<close>

definition ltrim_char :: "string \<Rightarrow> char \<Rightarrow> string" where
  "ltrim_char s c = dropWhile (\<lambda>ch. ch = c) s"

text \<open>
  \<^verbatim>\<open>trim(std::string& s, char c = ' ')\<close>: with the default character both ends are
  trimmed of white space; with any other character both ends are trimmed of that
  character. The erase at the end starts at the base of the first reverse position
  whose character is kept, so every trailing occurrence goes.
\<close>

definition trim :: "string \<Rightarrow> char \<Rightarrow> string" where
  "trim s c =
     (if c = CHR 0x20 then rev (dropWhile isspace (rev (ltrim s)))
      else rev (dropWhile (\<lambda>ch. ch = c) (rev (ltrim_char s c))))"

text \<open>\<^verbatim>\<open>is_blank(const std::string&)\<close>: \<^verbatim>\<open>std::all_of\<close> with \<^verbatim>\<open>isspace\<close>.\<close>

definition is_blank :: "string \<Rightarrow> bool" where
  "is_blank s = list_all isspace s"

section \<open>std::string comparison\<close>

text \<open>
  \<^verbatim>\<open>operator<\<close> on \<^verbatim>\<open>std::string\<close>: lexicographic on the characters read as
  unsigned bytes; a proper prefix is smaller.
\<close>

fun string_less :: "string \<Rightarrow> string \<Rightarrow> bool" where
  "string_less [] [] = False"
| "string_less [] (y # ys) = True"
| "string_less (x # xs) [] = False"
| "string_less (x # xs) (y # ys) =
     ((of_char x :: nat) < of_char y \<or> (x = y \<and> string_less xs ys))"

section \<open>cmdparse.h: cmdOption\<close>

record cmdOption =
  longName :: string
  shortName :: string
  defaultValue :: string
  paramValue :: string

text \<open>The defaulted constructor: every field is the empty string.\<close>

definition cmdOption_default :: cmdOption where
  "cmdOption_default = \<lparr>longName = [], shortName = [], defaultValue = [], paramValue = []\<rparr>"

text \<open>
  \<^verbatim>\<open>cmdOption(optionName, defaultValue = "", optionNameShort = "")\<close>: a blank short name
  is replaced by the long name.
\<close>

definition cmdOption_ctor :: "string \<Rightarrow> string \<Rightarrow> string \<Rightarrow> cmdOption" where
  "cmdOption_ctor optionName dflt optionNameShort =
     \<lparr>longName = optionName,
      shortName = (if is_blank optionNameShort then optionName else optionNameShort),
      defaultValue = dflt,
      paramValue = []\<rparr>"

text \<open>\<^verbatim>\<open>cmdOption::operator<\<close>: the lower-cased long names are compared.\<close>

definition option_less :: "cmdOption \<Rightarrow> cmdOption \<Rightarrow> bool" where
  "option_less a b = string_less (make_lower (longName a)) (make_lower (longName b))"

text \<open>\<^verbatim>\<open>has_value()\<close> returns \<^verbatim>\<open>is_blank(paramValue)\<close>.\<close>

definition has_value :: "cmdOption \<Rightarrow> bool" where
  "has_value opt = is_blank (paramValue opt)"

subsection \<open>Typed accessors\<close>








section \<open>std::set<cmdOption>\<close>

text \<open>
  The registry is a \<^verbatim>\<open>std::set<cmdOption>\<close> ordered by \<^verbatim>\<open>operator<\<close>. It is modelled by
  the list of its elements in iteration order; the operations walk that list with
  \<^verbatim>\<open>operator<\<close> only, as the container does: two options are equivalent when neither
  is less than the other.
\<close>

definition set_inv :: "cmdOption list \<Rightarrow> bool" where
  "set_inv opts = sorted_wrt option_less opts"

text \<open>\<^verbatim>\<open>insert\<close>: the new list and whether the element was inserted.\<close>

fun set_insert :: "cmdOption \<Rightarrow> cmdOption list \<Rightarrow> cmdOption list \<times> bool" where
  "set_insert x [] = ([x], True)"
| "set_insert x (y # ys) =
     (if option_less x y then (x # y # ys, True)
      else if option_less y x then (case set_insert x ys of (zs, b) \<Rightarrow> (y # zs, b))
      else (y # ys, False))"

text \<open>\<^verbatim>\<open>find\<close>: the equivalent element, or \<open>None\<close> for \<^verbatim>\<open>end()\<close>.\<close>

fun set_find :: "cmdOption \<Rightarrow> cmdOption list \<Rightarrow> cmdOption option" where
  "set_find x [] = None"
| "set_find x (y # ys) =
     (if option_less x y then None
      else if option_less y x then set_find x ys
      else Some y)"

text \<open>\<^verbatim>\<open>erase(itF)\<close> for the iterator that \<^verbatim>\<open>find\<close> returned for \<open>x\<close>.\<close>

fun set_erase :: "cmdOption \<Rightarrow> cmdOption list \<Rightarrow> cmdOption list" where
  "set_erase x [] = []"
| "set_erase x (y # ys) =
     (if option_less x y then y # ys
      else if option_less y x then y # set_erase x ys
      else ys)"

section \<open>cmdparse.h: cmdParse\<close>

record cmdParse =
  m_executable_name :: string
  m_arguments :: "string list"
  m_parameter_options :: "cmdOption list"
  m_errors :: "string list"

definition cmdParse_default :: cmdParse where
  "cmdParse_default =
     \<lparr>m_executable_name = [], m_arguments = [], m_parameter_options = [], m_errors = []\<rparr>"

definition logError :: "cmdParse \<Rightarrow> string \<Rightarrow> cmdParse" where
  "logError s err = s\<lparr>m_errors := m_errors s @ [err]\<rparr>"

definition add_param_option :: "cmdParse \<Rightarrow> cmdOption \<Rightarrow> bool \<times> cmdParse" where
  "add_param_option s paramOption =
     (case set_insert paramOption (m_parameter_options s) of
        (opts, inserted) \<Rightarrow>
          let s1 = s\<lparr>m_parameter_options := opts\<rparr>;
              s2 = (if \<not> inserted
                    then logError s1 (''Option already exists: '' @ longName paramOption)
                    else s1)
          in (inserted, s2))"

text \<open>\<^verbatim>\<open>cmdParse(std::vector<cmdOption>)\<close>: every option is added, the results dropped.\<close>

definition cmdParse_ctor :: "cmdOption list \<Rightarrow> cmdParse" where
  "cmdParse_ctor optionVec = foldl (\<lambda>s opt. snd (add_param_option s opt)) cmdParse_default optionVec"

definition get_arguments :: "cmdParse \<Rightarrow> string list" where
  "get_arguments s = m_arguments s"

definition get_param_option_count :: "cmdParse \<Rightarrow> int" where
  "get_param_option_count s = int (length (m_parameter_options s))"

definition has_param_option :: "cmdParse \<Rightarrow> string \<Rightarrow> bool" where
  "has_param_option s optionName =
     (case set_find (cmdOption_ctor optionName [] []) (m_parameter_options s) of
        None \<Rightarrow> False
      | Some _ \<Rightarrow> True)"

definition get_param_option :: "cmdParse \<Rightarrow> string \<Rightarrow> cmdOption" where
  "get_param_option s optionStr =
     (case set_find (cmdOption_ctor optionStr [] []) (m_parameter_options s) of
        None \<Rightarrow> cmdOption_default
      | Some opt \<Rightarrow> opt)"

text \<open>\<^verbatim>\<open>get_helpstring()\<close>: the header, the text the loop appends for each option of
  the set in iteration order, and the version line.\<close>

definition help_line :: "cmdOption \<Rightarrow> string" where
  "help_line opt = ''    -'' @ shortName opt @ '', --'' @ longName opt @ [CHR 0x0A]"

definition get_helpstring :: "cmdParse \<Rightarrow> string" where
  "get_helpstring s =
     foldl (\<lambda>helpString opt. helpString @ help_line opt)
       (m_executable_name s @ '' [options]'' @ [CHR 0x0A] @ '' where options are:'' @ [CHR 0x0A])
       (m_parameter_options s)
     @ [CHR 0x0A, CHR 0x0A] @ ''(version 1.0)''"

definition has_errors :: "cmdParse \<Rightarrow> bool" where
  "has_errors s = (m_errors s \<noteq> [])"

definition get_errors :: "cmdParse \<Rightarrow> string list" where
  "get_errors s = m_errors s"

definition getFullOptionName :: "cmdParse \<Rightarrow> string \<Rightarrow> string" where
  "getFullOptionName s short =
     (case find (\<lambda>opt. shortName opt = short) (m_parameter_options s) of
        Some opt \<Rightarrow> longName opt
      | None \<Rightarrow> [])"

subsection \<open>parseOptions\<close>

text \<open>
  Places where the source steps an iterator beyond \<^verbatim>\<open>end()\<close>, or reads \<^verbatim>\<open>argv\<close> beyond
  the tokens it holds, have no defined result; the model returns them as faults.
\<close>

datatype fault =
    VectorIteratorPastEnd   \<comment> \<open>\<^verbatim>\<open>start+1\<close> with \<^verbatim>\<open>start == m_arguments.end()\<close>\<close>
  | StringIteratorPastEnd   \<comment> \<open>\<^verbatim>\<open>value_iterator + 1\<close> with \<^verbatim>\<open>value_iterator == end()\<close>\<close>
  | ArgvPastEnd             \<comment> \<open>\<^verbatim>\<open>argv[n]\<close> with no such token\<close>

definition isOptionPrefix :: "string \<Rightarrow> bool" where
  "isOptionPrefix s = (case s of [] \<Rightarrow> False | c # _ \<Rightarrow> c = CHR ''-'')"

definition is_delimiter :: "char \<Rightarrow> bool" where
  "is_delimiter c = (c = CHR 0x20 \<or> c = CHR '':'' \<or> c = CHR ''='')"

text \<open>
  The tokenizer of one segment: whether the full option name is used, the name and
  the value, trimmed. \<^verbatim>\<open>fullOptionString[1]\<close> of a one-character string is the
  terminating NUL. The value loop starts at \<^verbatim>\<open>value_iterator + 1\<close>.
\<close>

definition tokenize :: "string \<Rightarrow> fault + (bool \<times> string \<times> string)" where
  "tokenize fullOptionString =
     (let useFullOptionName =
            (case fullOptionString of
               c0 # c1 # _ \<Rightarrow> c0 = CHR ''-'' \<and> c1 = CHR ''-''
             | _ \<Rightarrow> False);
          stripped = ltrim_char fullOptionString (CHR ''-'');
          name = takeWhile (\<lambda>c. \<not> is_delimiter c) stripped
      in case dropWhile (\<lambda>c. \<not> is_delimiter c) stripped of
           [] \<Rightarrow> Inl StringIteratorPastEnd
         | _ # val \<Rightarrow>
             Inr (useFullOptionName,
                  trim name (CHR 0x20),
                  trim (trim val (CHR 0x20)) (CHR 0x22)))"

text \<open>
  The rest of the loop body for one segment: short-name resolution, lookup and the
  update by erase and insert. The boolean is \<open>False\<close> where the source returns false.
\<close>

definition update_option :: "string \<Rightarrow> cmdParse \<Rightarrow> fault + (bool \<times> cmdParse)" where
  "update_option fullOptionString s =
     (case tokenize fullOptionString of
        Inl f \<Rightarrow> Inl f
      | Inr (useFullOptionName, name0, val) \<Rightarrow>
          let name = (if \<not> useFullOptionName then getFullOptionName s name0 else name0)
          in if \<not> useFullOptionName \<and> name = []
             then Inr (False, logError s (''Option not found: '' @ name))
             else
               (case set_find (cmdOption_ctor name [] []) (m_parameter_options s) of
                  None \<Rightarrow> Inr (False, logError s (''Option not found: '' @ name))
                | Some itF \<Rightarrow>
                    let updatedOption = itF\<lparr>paramValue := val\<rparr>;
                        erased = set_erase itF (m_parameter_options s)
                    in Inr (True,
                            s\<lparr>m_parameter_options := fst (set_insert updatedOption erased)\<rparr>)))"

text \<open>
  The while loop, on the tokens from the cursor to the end. \<open>start\<close> is the first
  option-prefix token from the cursor; \<open>end\<close> is searched from \<^verbatim>\<open>start+1\<close> before
  \<open>start\<close> is compared with \<^verbatim>\<open>m_arguments.end()\<close>.
\<close>

function parse_from :: "string list \<Rightarrow> cmdParse \<Rightarrow> fault + (bool \<times> cmdParse)" where
  "parse_from cursor s =
     (if cursor = [] then Inr (True, s)
      else
        (case dropWhile (\<lambda>t. \<not> isOptionPrefix t) cursor of
           [] \<Rightarrow> Inl VectorIteratorPastEnd
         | t # rest \<Rightarrow>
             (case update_option (concat (t # takeWhile (\<lambda>t. \<not> isOptionPrefix t) rest)) s of
                Inl f \<Rightarrow> Inl f
              | Inr (ok, s') \<Rightarrow>
                  if ok then parse_from (dropWhile (\<lambda>t. \<not> isOptionPrefix t) rest) s'
                  else Inr (False, s'))))"
  by pat_completeness auto
termination
proof (relation "measure (\<lambda>(cursor, s). length cursor)")
  show "wf (measure (\<lambda>(cursor, s). length cursor))" by simp
next
  fix cursor :: "string list" and s :: cmdParse and t rest x and s' :: cmdParse and p ok
  assume "dropWhile (\<lambda>t. \<not> isOptionPrefix t) cursor = t # rest"
  then have "length (t # rest) \<le> length cursor"
    by (metis length_dropWhile_le)
  moreover have "length (dropWhile (\<lambda>t. \<not> isOptionPrefix t) rest) \<le> length rest"
    by (rule length_dropWhile_le)
  ultimately show "((dropWhile (\<lambda>t. \<not> isOptionPrefix t) rest, s'), cursor, s)
      \<in> measure (\<lambda>(cursor, s). length cursor)"
    by simp
qed

declare parse_from.simps [simp del]

definition parseOptions :: "cmdParse \<Rightarrow> fault + (bool \<times> cmdParse)" where
  "parseOptions s = parse_from (m_arguments s) s"

subsection \<open>init\<close>

text \<open>
  \<^verbatim>\<open>init(int argc, const char* argv[])\<close>. \<open>argv\<close> is the list of the tokens the array
  holds; the loop pushes the trimmed tokens \<^verbatim>\<open>argv[1] .. argv[argc-1]\<close> on the end of
  \<^verbatim>\<open>m_arguments\<close>.
\<close>

definition init :: "cmdParse \<Rightarrow> int \<Rightarrow> string list \<Rightarrow> fault + (bool \<times> cmdParse)" where
  "init s argc argv =
     (if argc \<le> 0 then Inr (False, logError s ''No arguments given to application'')
      else if int (length argv) < argc then Inl ArgvPastEnd
      else
        let s1 = s\<lparr>m_executable_name := argv ! 0\<rparr>;
            s2 = s1\<lparr>m_arguments :=
                      m_arguments s1 @ map (\<lambda>a. trim a (CHR 0x20)) (take (nat argc - 1) (tl argv))\<rparr>
        in parseOptions s2)"

subsection \<open>The segments of an argument list and the option a segment names\<close>



text \<open>
  The name that the loop body looks up in the registry for a segment: the name of the
  segment itself in the long form, the result of \<^verbatim>\<open>getFullOptionName\<close> in the short form.
  A segment matches an option when that name is equivalent to the option's long name.
\<close>

definition looked_up_name :: "cmdParse \<Rightarrow> string \<Rightarrow> string option" where
  "looked_up_name s seg =
     (case tokenize seg of
        Inl _ \<Rightarrow> None
      | Inr (useFullOptionName, name, _) \<Rightarrow>
          Some (if \<not> useFullOptionName then getFullOptionName s name else name))"

definition matches :: "cmdParse \<Rightarrow> string \<Rightarrow> cmdOption \<Rightarrow> bool" where
  "matches s seg opt =
     (case looked_up_name s seg of
        None \<Rightarrow> False
      | Some name \<Rightarrow> make_lower name = make_lower (longName opt))"

section \<open>The order of the registry\<close>

text \<open>
  \<^verbatim>\<open>operator<\<close> is a strict order on the lower-cased long names, and two options are
  equivalent for the container exactly when their lower-cased long names are equal.
\<close>

lemma string_less_irrefl: "\<not> string_less a a"
  by (induction a) auto

lemma string_less_asym: "string_less a b \<Longrightarrow> \<not> string_less b a"
  by (induction a b rule: string_less.induct) auto

lemma string_less_trans: "string_less a b \<Longrightarrow> string_less b c \<Longrightarrow> string_less a c"
proof (induction a arbitrary: b c)
  case Nil
  then show ?case by (cases b; cases c) auto
next
  case (Cons x xs)
  then show ?case by (cases b; cases c) auto
qed

lemma string_less_total: "\<not> string_less a b \<Longrightarrow> \<not> string_less b a \<Longrightarrow> a = b"
  by (induction a b rule: string_less.induct) (auto simp: not_less)

lemma option_less_irrefl: "\<not> option_less a a"
  by (simp add: option_less_def string_less_irrefl)

lemma option_less_asym: "option_less a b \<Longrightarrow> \<not> option_less b a"
  by (simp add: option_less_def string_less_asym)

lemma option_less_trans: "option_less a b \<Longrightarrow> option_less b c \<Longrightarrow> option_less a c"
  unfolding option_less_def by (rule string_less_trans)

lemma option_equiv_iff:
  "(\<not> option_less a b \<and> \<not> option_less b a) \<longleftrightarrow> make_lower (longName a) = make_lower (longName b)"
  unfolding option_less_def using string_less_total string_less_irrefl by metis

lemma option_less_cong:
  "make_lower (longName a) = make_lower (longName a') \<Longrightarrow> option_less a b = option_less a' b"
  "make_lower (longName b) = make_lower (longName b') \<Longrightarrow> option_less a b = option_less a b'"
  by (simp_all add: option_less_def)

lemma set_insert_dup:
  "set_inv opts \<Longrightarrow> e \<in> set opts \<Longrightarrow> make_lower (longName e) = make_lower (longName x)
     \<Longrightarrow> set_insert x opts = (opts, False)"
proof (induction opts)
  case Nil
  then show ?case by simp
next
  case (Cons y ys)
  show ?case
  proof (cases "e = y")
    case True
    with Cons.prems(3) have "\<not> option_less x y" "\<not> option_less y x"
      using option_equiv_iff by metis+
    then show ?thesis by simp
  next
    case False
    with Cons.prems have e: "e \<in> set ys" and inv: "set_inv ys" and "option_less y e"
      by (auto simp: set_inv_def)
    then have yx: "option_less y x"
      using Cons.prems(3) option_less_cong(2) by metis
    then have "\<not> option_less x y" by (simp add: option_less_asym)
    with yx Cons.IH[OF inv e Cons.prems(3)] show ?thesis by simp
  qed
qed

lemma set_find_Some:
  "set_inv opts \<Longrightarrow> e \<in> set opts \<Longrightarrow> make_lower (longName e) = make_lower (longName x)
     \<Longrightarrow> set_find x opts = Some e"
proof (induction opts)
  case Nil
  then show ?case by simp
next
  case (Cons y ys)
  show ?case
  proof (cases "e = y")
    case True
    with Cons.prems(3) have "\<not> option_less x y" "\<not> option_less y x"
      using option_equiv_iff by metis+
    with True show ?thesis by simp
  next
    case False
    with Cons.prems have e: "e \<in> set ys" and inv: "set_inv ys" and "option_less y e"
      by (auto simp: set_inv_def)
    then have yx: "option_less y x"
      using Cons.prems(3) option_less_cong(2) by metis
    then have "\<not> option_less x y" by (simp add: option_less_asym)
    with yx Cons.IH[OF inv e Cons.prems(3)] show ?thesis by simp
  qed
qed

lemma set_find_in:
  "set_find x opts = Some e \<Longrightarrow>
     e \<in> set opts \<and> make_lower (longName e) = make_lower (longName x)"
proof (induction opts)
  case Nil
  then show ?case by simp
next
  case (Cons y ys)
  then show ?case
    using option_equiv_iff[of x y] by (auto split: if_splits)
qed

lemma set_find_None:
  "set_inv opts \<Longrightarrow> set_find x opts = None \<Longrightarrow> e \<in> set opts
     \<Longrightarrow> make_lower (longName e) \<noteq> make_lower (longName x)"
  using set_find_Some by fastforce

lemma set_insert_less_all:
  "\<forall>y\<in>set opts. option_less x y \<Longrightarrow> set_insert x opts = (x # opts, True)"
  by (cases opts) auto

lemma erase_insert_update:
  "set_inv opts \<Longrightarrow> e \<in> set opts \<Longrightarrow> make_lower (longName e') = make_lower (longName e) \<Longrightarrow>
     fst (set_insert e' (set_erase e opts)) = map (\<lambda>opt. if opt = e then e' else opt) opts"
proof (induction opts)
  case Nil
  then show ?case by simp
next
  case (Cons y ys)
  show ?case
  proof (cases "e = y")
    case True
    from Cons.prems(1) have gt: "\<forall>z\<in>set ys. option_less y z"
      by (simp add: set_inv_def)
    then have "\<forall>z\<in>set ys. option_less e' z"
      using Cons.prems(3) True option_less_cong(1) by metis
    then have "set_insert e' ys = (e' # ys, True)" by (rule set_insert_less_all)
    moreover have "map (\<lambda>opt. if opt = y then e' else opt) ys = ys"
      using gt option_less_irrefl by (intro map_idI) auto
    ultimately show ?thesis using True by (simp add: option_less_irrefl)
  next
    case False
    with Cons.prems have e: "e \<in> set ys" and inv: "set_inv ys" and ye: "option_less y e"
      by (auto simp: set_inv_def)
    then have ye': "option_less y e'"
      using Cons.prems(3) option_less_cong(2) by metis
    have "\<not> option_less e y" "\<not> option_less e' y"
      using ye ye' by (simp_all add: option_less_asym)
    with ye ye' False Cons.IH[OF inv e Cons.prems(3)] show ?thesis
      by (simp add: split_beta)
  qed
qed

lemma set_insert_set:
  "set (fst (set_insert x opts)) = (if snd (set_insert x opts) then insert x (set opts) else set opts)"
  by (induction opts) (auto simp: split_beta)

lemma set_insert_inv: "set_inv opts \<Longrightarrow> set_inv (fst (set_insert x opts))"
proof (induction opts)
  case Nil
  then show ?case by (simp add: set_inv_def)
next
  case (Cons y ys)
  then have inv: "set_inv ys" and gt: "\<forall>z\<in>set ys. option_less y z"
    by (simp_all add: set_inv_def)
  show ?case
  proof (cases "option_less x y")
    case True
    then have "\<forall>z\<in>set ys. option_less x z"
      using gt option_less_trans by blast
    with True Cons.prems show ?thesis by (simp add: set_inv_def)
  next
    case False
    show ?thesis
    proof (cases "option_less y x")
      case True
      have "\<forall>z\<in>set (fst (set_insert x ys)). option_less y z"
        using gt True by (auto simp: set_insert_set split: if_splits)
      with False True Cons.IH[OF inv] show ?thesis
        by (simp add: set_inv_def split_beta)
    next
      case nlt: False
      with False Cons.prems show ?thesis by simp
    qed
  qed
qed

section \<open>Trimming and the tokenizer\<close>

lemma trim_space_id:
  "s = [] \<or> (\<not> isspace (hd s) \<and> \<not> isspace (last s)) \<Longrightarrow> trim s (CHR 0x20) = s"
proof (cases "s = []")
  case True
  then show ?thesis by (simp add: trim_def ltrim_def)
next
  case False
  assume "s = [] \<or> (\<not> isspace (hd s) \<and> \<not> isspace (last s))"
  with False have h: "\<not> isspace (hd s)" and l: "\<not> isspace (last s)" by auto
  from h have "dropWhile isspace s = s" by (simp add: dropWhile_eq_self_iff)
  moreover from l False have "dropWhile isspace (rev s) = rev s"
    by (simp add: dropWhile_eq_self_iff hd_rev)
  ultimately show ?thesis by (simp add: trim_def ltrim_def)
qed

lemma trim_char_layers:
  assumes "c \<noteq> CHR 0x20" and "w \<noteq> []" and "hd w \<noteq> c" and "last w \<noteq> c"
  shows "trim (replicate i c @ w @ replicate j c) c = w"
proof -
  have "dropWhile (\<lambda>ch. ch = c) (replicate i c @ w @ replicate j c)
          = dropWhile (\<lambda>ch. ch = c) (w @ replicate j c)"
    by (rule dropWhile_append2) simp
  also have "\<dots> = w @ replicate j c"
    using assms(2,3) by (simp add: dropWhile_eq_self_iff)
  finally have l: "ltrim_char (replicate i c @ w @ replicate j c) c = w @ replicate j c"
    by (simp add: ltrim_char_def)
  have "dropWhile (\<lambda>ch. ch = c) (rev (w @ replicate j c))
          = dropWhile (\<lambda>ch. ch = c) (rev w)"
    unfolding rev_append rev_replicate by (rule dropWhile_append2) simp
  also have "\<dots> = rev w"
    using assms(2,4) by (simp add: dropWhile_eq_self_iff hd_rev)
  finally show ?thesis using assms(1) l by (simp add: trim_def)
qed

lemma tokenize_split:
  assumes "n \<noteq> []" and "hd n \<noteq> CHR ''-''" and "\<forall>c\<in>set n. \<not> is_delimiter c"
    and "is_delimiter d" and "dashes = ''-'' \<or> dashes = ''--''"
  shows "tokenize (dashes @ n @ d # v) =
           Inr (dashes = ''--'', trim n (CHR 0x20), trim (trim v (CHR 0x20)) (CHR 0x22))"
proof -
  let ?seg = "dashes @ n @ d # v"
  have full: "(case ?seg of c0 # c1 # _ \<Rightarrow> c0 = CHR ''-'' \<and> c1 = CHR ''-'' | _ \<Rightarrow> False)
                = (dashes = ''--'')"
    using assms(1,2,5) by (cases n) auto
  have "dropWhile (\<lambda>ch. ch = CHR ''-'') ?seg = dropWhile (\<lambda>ch. ch = CHR ''-'') (n @ d # v)"
    using assms(5) by (intro dropWhile_append2) auto
  also have "\<dots> = n @ d # v"
    using assms(1,2) by (simp add: dropWhile_eq_self_iff)
  finally have strip: "ltrim_char ?seg (CHR ''-'') = n @ d # v"
    by (simp add: ltrim_char_def)
  have name: "takeWhile (\<lambda>c. \<not> is_delimiter c) (n @ d # v) = n"
    using assms(3,4) by (simp add: takeWhile_tail)
  have rest: "dropWhile (\<lambda>c. \<not> is_delimiter c) (n @ d # v) = d # v"
    using assms(3,4) by (simp add: dropWhile_append2)
  show ?thesis
    unfolding tokenize_def Let_def full strip name rest by simp
qed

lemma hd_layers:
  "w \<noteq> [] \<Longrightarrow> hd (replicate i c @ w @ replicate j c) = (if i = 0 then hd w else c)"
  by (cases i) simp_all

lemma last_layers:
  "w \<noteq> [] \<Longrightarrow> last (replicate i c @ w @ replicate j c) = (if j = 0 then last w else c)"
  by (cases j) (simp_all add: last_append)

text \<open>
  Whatever the segment, when its stripped text holds no delimiter the tokenizer steps
  beyond the end of the string.
\<close>

lemma tokenize_no_delimiter:
  "\<forall>c\<in>set (ltrim_char seg (CHR ''-'')). \<not> is_delimiter c \<Longrightarrow>
     tokenize seg = Inl StringIteratorPastEnd"
proof -
  assume "\<forall>c\<in>set (ltrim_char seg (CHR ''-'')). \<not> is_delimiter c"
  then have d: "dropWhile (\<lambda>c. \<not> is_delimiter c) (ltrim_char seg (CHR ''-'')) = []"
    by (simp add: dropWhile_eq_Nil_conv)
  show ?thesis unfolding tokenize_def Let_def d by simp
qed

section \<open>One segment of the parse\<close>

text \<open>
  On a registry that satisfies the container's invariant, the erase and insert of the
  loop body replace the matched option by its copy with the new \<open>paramValue\<close>,
  in place.
\<close>

lemma update_option_long:
  assumes "set_inv (m_parameter_options s)" and "e \<in> set (m_parameter_options s)"
    and "make_lower (longName e) = make_lower name"
    and "tokenize seg = Inr (True, name, val)"
  shows "update_option seg s =
           Inr (True, s\<lparr>m_parameter_options :=
                  map (\<lambda>opt. if opt = e then e\<lparr>paramValue := val\<rparr> else opt)
                    (m_parameter_options s)\<rparr>)"
proof -
  have "make_lower (longName e) = make_lower (longName (cmdOption_ctor name [] []))"
    using assms(3) by (simp add: cmdOption_ctor_def)
  then have f: "set_find (cmdOption_ctor name [] []) (m_parameter_options s) = Some e"
    using assms(1,2) by (intro set_find_Some)
  have u: "fst (set_insert (e\<lparr>paramValue := val\<rparr>) (set_erase e (m_parameter_options s)))
             = map (\<lambda>opt. if opt = e then e\<lparr>paramValue := val\<rparr> else opt) (m_parameter_options s)"
    using assms(1,2) by (intro erase_insert_update) simp_all
  show ?thesis
    unfolding update_option_def assms(4) by (simp add: f u)
qed


lemma parse_from_Nil: "parse_from [] s = Inr (True, s)"
  by (simp add: parse_from.simps)

lemma parse_from_one_segment:
  assumes "isOptionPrefix t" and "\<forall>a\<in>set cont. \<not> isOptionPrefix a"
    and "update_option (concat (t # cont)) s = Inr (True, s')"
  shows "parse_from (t # cont) s = Inr (True, s')"
proof -
  have d: "dropWhile (\<lambda>t. \<not> isOptionPrefix t) (t # cont) = t # cont"
    using assms(1) by simp
  have tk: "takeWhile (\<lambda>t. \<not> isOptionPrefix t) cont = cont"
    using assms(2) by (simp add: takeWhile_eq_all_conv)
  have dr: "dropWhile (\<lambda>t. \<not> isOptionPrefix t) cont = []"
    using assms(2) by simp
  show ?thesis
    by (subst parse_from.simps) (simp only: d tk dr assms(3) parse_from_Nil list.case sum.case prod.case if_True if_False list.distinct)
qed


lemma isOptionPrefix_Cons: "isOptionPrefix (c # cs) = (c = CHR ''-'')"
  by (simp add: isOptionPrefix_def)

lemma init_one_segment:
  assumes inv: "set_inv (m_parameter_options s)" and args: "m_arguments s = []"
    and mem: "e \<in> set (m_parameter_options s)"
    and key: "make_lower (longName e) = make_lower n"
    and n: "n \<noteq> []" "hd n \<noteq> CHR ''-''" "\<forall>c\<in>set n. \<not> is_delimiter c \<and> \<not> isspace c"
    and d: "is_delimiter d"
    and seg: "concat (t # cont) = ''--'' @ n @ d # v" and t: "t \<noteq> []"
    and cont: "\<forall>a\<in>set cont. \<not> isOptionPrefix a"
    and trimmed: "\<forall>a\<in>set (t # cont). trim a (CHR 0x20) = a"
  shows "init s (int (length cont) + 2) (exe # t # cont) =
           Inr (True, s\<lparr>m_executable_name := exe, m_arguments := t # cont,
                  m_parameter_options :=
                    map (\<lambda>opt. if opt = e
                                then e\<lparr>paramValue := trim (trim v (CHR 0x20)) (CHR 0x22)\<rparr>
                                else opt)
                      (m_parameter_options s)\<rparr>)"
proof -
  let ?s2 = "s\<lparr>m_executable_name := exe, m_arguments := t # cont\<rparr>"
  have "hd (concat (t # cont)) = CHR ''-''" unfolding seg by simp
  with t have pre: "isOptionPrefix t" by (cases t) (simp_all add: isOptionPrefix_Cons)
  have "trim n (CHR 0x20) = n"
    using n by (intro trim_space_id) simp
  then have tok: "tokenize (concat (t # cont))
      = Inr (True, n, trim (trim v (CHR 0x20)) (CHR 0x22))"
    unfolding seg using tokenize_split [of n d "''--''" v] n d by simp
  have upd: "update_option (concat (t # cont)) ?s2 =
      Inr (True, ?s2\<lparr>m_parameter_options :=
                  map (\<lambda>opt. if opt = e
                                then e\<lparr>paramValue := trim (trim v (CHR 0x20)) (CHR 0x22)\<rparr>
                                else opt)
                      (m_parameter_options ?s2)\<rparr>)"
    using inv mem key tok by (intro update_option_long) simp_all
  have p: "parseOptions ?s2 =
      Inr (True, ?s2\<lparr>m_parameter_options :=
                  map (\<lambda>opt. if opt = e
                                then e\<lparr>paramValue := trim (trim v (CHR 0x20)) (CHR 0x22)\<rparr>
                                else opt)
                      (m_parameter_options ?s2)\<rparr>)"
    unfolding parseOptions_def using parse_from_one_segment [OF pre cont upd] by simp
  have m: "map (\<lambda>a. trim a (CHR 0x20)) (t # cont) = t # cont"
    using trimmed by (intro map_idI) auto
  have tk: "take (nat (int (length cont) + 2) - 1) (tl (exe # t # cont)) = t # cont"
    by simp
  have i: "init s (int (length cont) + 2) (exe # t # cont) = parseOptions ?s2"
    unfolding init_def Let_def tk m using args by simp
  show ?thesis unfolding i p by simp
qed

lemma map_update_inv:
  "set_inv opts \<Longrightarrow> set_inv (map (\<lambda>opt. if opt = e then e\<lparr>paramValue := v\<rparr> else opt) opts)"
  unfolding set_inv_def sorted_wrt_map
  by (erule sorted_wrt_mono_rel [rotated]) (auto simp: option_less_def)

lemma update_option_keeps:
  assumes "set_inv (m_parameter_options s)" and "update_option seg s = Inr (ok, s')"
  shows "map (\<lambda>opt. opt\<lparr>paramValue := []\<rparr>) (m_parameter_options s')
           = map (\<lambda>opt. opt\<lparr>paramValue := []\<rparr>) (m_parameter_options s)
         \<and> set_inv (m_parameter_options s')
         \<and> m_executable_name s' = m_executable_name s
         \<and> m_arguments s' = m_arguments s"
proof (cases "tokenize seg")
  case (Inl f)
  with assms(2) show ?thesis by (simp add: update_option_def)
next
  case (Inr r)
  obtain full name0 val where r: "r = (full, name0, val)" by (cases r)
  define name where "name = (if \<not> full then getFullOptionName s name0 else name0)"
  show ?thesis
  proof (cases "set_find (cmdOption_ctor name [] []) (m_parameter_options s)")
    case None
    with assms Inr r show ?thesis
      by (auto simp: update_option_def Let_def name_def logError_def split: if_splits)
  next
    case (Some itF)
    then have mem: "itF \<in> set (m_parameter_options s)"
      using set_find_in by blast
    have u: "fst (set_insert (itF\<lparr>paramValue := val\<rparr>) (set_erase itF (m_parameter_options s)))
             = map (\<lambda>opt. if opt = itF then itF\<lparr>paramValue := val\<rparr> else opt) (m_parameter_options s)"
      using assms(1) mem by (intro erase_insert_update) simp_all
    have k: "map (\<lambda>opt. opt\<lparr>paramValue := []\<rparr>)
               (map (\<lambda>opt. if opt = itF then itF\<lparr>paramValue := val\<rparr> else opt) (m_parameter_options s))
             = map (\<lambda>opt. opt\<lparr>paramValue := []\<rparr>) (m_parameter_options s)"
      by (simp add: comp_def if_distrib [of "\<lambda>opt. opt\<lparr>paramValue := []\<rparr>"] cong: if_cong)
    from assms(2) Inr r Some show ?thesis
      using u k map_update_inv [OF assms(1), of itF val] assms(1)
      by (auto simp: update_option_def Let_def name_def logError_def split: if_splits)
  qed
qed


section \<open>What the parse keeps\<close>

text \<open>
  A parse that returns, with true or false, changes no field of the registry but
  \<open>paramValue\<close>, and keeps the executable name and the argument list.
\<close>

lemma parse_from_keeps:
  "set_inv (m_parameter_options s) \<Longrightarrow> parse_from cursor s = Inr (ok, s') \<Longrightarrow>
     map (\<lambda>opt. opt\<lparr>paramValue := []\<rparr>) (m_parameter_options s')
       = map (\<lambda>opt. opt\<lparr>paramValue := []\<rparr>) (m_parameter_options s)
     \<and> set_inv (m_parameter_options s')
     \<and> m_executable_name s' = m_executable_name s
     \<and> m_arguments s' = m_arguments s"
proof (induction cursor s rule: parse_from.induct)
  case (1 cursor s)
  show ?case
  proof (cases "cursor = []")
    case True
    with "1.prems" show ?thesis by (simp add: parse_from_Nil)
  next
    case False
    note ne = this
    show ?thesis
    proof (cases "dropWhile (\<lambda>t. \<not> isOptionPrefix t) cursor")
      case Nil
      with ne "1.prems"(2) show ?thesis by (subst (asm) parse_from.simps) simp
    next
      case (Cons t rest)
      let ?seg = "concat (t # takeWhile (\<lambda>t. \<not> isOptionPrefix t) rest)"
      show ?thesis
      proof (cases "update_option ?seg s")
        case (Inl f)
        with ne Cons "1.prems"(2) show ?thesis by (subst (asm) parse_from.simps) simp
      next
        case (Inr r)
        obtain ok1 s1 where r: "r = (ok1, s1)" by (cases r)
        have k1: "map (\<lambda>opt. opt\<lparr>paramValue := []\<rparr>) (m_parameter_options s1)
           = map (\<lambda>opt. opt\<lparr>paramValue := []\<rparr>) (m_parameter_options s)
         \<and> set_inv (m_parameter_options s1)
         \<and> m_executable_name s1 = m_executable_name s
         \<and> m_arguments s1 = m_arguments s"
          using update_option_keeps [OF "1.prems"(1)] Inr r by blast
        show ?thesis
        proof (cases ok1)
          case True
          have rec: "parse_from (dropWhile (\<lambda>t. \<not> isOptionPrefix t) rest) s1 = Inr (ok, s')"
            using "1.prems"(2) ne Cons Inr r True by (subst (asm) parse_from.simps) simp
          have inv1: "set_inv (m_parameter_options s1)" using k1 by simp
          from "1.IH" [OF ne Cons Inr r [symmetric] True inv1 rec] k1 show ?thesis by simp
        next
          case False
          have "s' = s1"
            using "1.prems"(2) ne Cons Inr r False by (subst (asm) parse_from.simps) simp
          with k1 show ?thesis by simp
        qed
      qed
    qed
  qed
qed

lemma init_keeps:
  assumes "set_inv (m_parameter_options s)" and "init s argc argv = Inr (ok, s')"
  shows "map (\<lambda>opt. opt\<lparr>paramValue := []\<rparr>) (m_parameter_options s')
       = map (\<lambda>opt. opt\<lparr>paramValue := []\<rparr>) (m_parameter_options s)
     \<and> set_inv (m_parameter_options s')
     \<and> (0 < argc \<longrightarrow> m_executable_name s' = argv ! 0)"
proof (cases "argc \<le> 0")
  case True
  with assms show ?thesis by (auto simp: init_def logError_def)
next
  case False
  let ?s2 = "s\<lparr>m_executable_name := argv ! 0,
      m_arguments := m_arguments s @ map (\<lambda>a. trim a (CHR 0x20)) (take (nat argc - 1) (tl argv))\<rparr>"
  from False assms(2) have "parse_from (m_arguments ?s2) ?s2 = Inr (ok, s')"
    by (simp add: init_def Let_def parseOptions_def split: if_splits)
  from parse_from_keeps [OF _ this] assms(1) show ?thesis by simp
qed

section \<open>The registry after the declarations\<close>

lemma add_param_option_registry:
  "m_parameter_options (snd (add_param_option s opt)) = fst (set_insert opt (m_parameter_options s))"
  "m_executable_name (snd (add_param_option s opt)) = m_executable_name s"
  by (simp_all add: add_param_option_def split_beta Let_def logError_def)

lemma set_insert_new:
  "set_inv r \<Longrightarrow> \<forall>e\<in>set r. make_lower (longName e) \<noteq> make_lower (longName x)
     \<Longrightarrow> snd (set_insert x r)"
proof (induction r)
  case Nil
  then show ?case by simp
next
  case (Cons y ys)
  then have "set_inv ys" by (simp add: set_inv_def)
  with Cons show ?case
    using option_equiv_iff [of x y] by (auto simp: split_beta)
qed

lemma set_insert_length:
  "length (fst (set_insert x r)) = (if snd (set_insert x r) then Suc (length r) else length r)"
  by (induction r) (auto simp: split_beta)

lemma ctor_fold_inv:
  "set_inv (m_parameter_options s) \<Longrightarrow>
     set_inv (m_parameter_options (foldl (\<lambda>s opt. snd (add_param_option s opt)) s vec))"
  by (induction vec arbitrary: s) (simp_all add: add_param_option_registry set_insert_inv)

lemma ctor_fold_exe:
  "m_executable_name (foldl (\<lambda>s opt. snd (add_param_option s opt)) s vec) = m_executable_name s"
  by (induction vec arbitrary: s) (simp_all add: add_param_option_registry)

lemma ctor_fold_set:
  "set_inv (m_parameter_options s) \<Longrightarrow>
   distinct (map (\<lambda>opt. make_lower (longName opt)) vec) \<Longrightarrow>
   \<forall>e\<in>set (m_parameter_options s). \<forall>x\<in>set vec.
      make_lower (longName e) \<noteq> make_lower (longName x) \<Longrightarrow>
   set (m_parameter_options (foldl (\<lambda>s opt. snd (add_param_option s opt)) s vec))
     = set (m_parameter_options s) \<union> set vec
   \<and> length (m_parameter_options (foldl (\<lambda>s opt. snd (add_param_option s opt)) s vec))
     = length (m_parameter_options s) + length vec"
proof (induction vec arbitrary: s)
  case Nil
  then show ?case by simp
next
  case (Cons x xs)
  let ?s1 = "snd (add_param_option s x)"
  have ins: "snd (set_insert x (m_parameter_options s))"
    using Cons.prems(1,3) by (intro set_insert_new) auto
  have reg: "m_parameter_options ?s1 = fst (set_insert x (m_parameter_options s))"
    by (rule add_param_option_registry)
  have set1: "set (m_parameter_options ?s1) = insert x (set (m_parameter_options s))"
    using ins by (simp add: reg set_insert_set)
  have len1: "length (m_parameter_options ?s1) = Suc (length (m_parameter_options s))"
    using ins by (simp add: reg set_insert_length)
  have inv1: "set_inv (m_parameter_options ?s1)"
    using Cons.prems(1) by (simp add: reg set_insert_inv)
  have d1: "distinct (map (\<lambda>opt. make_lower (longName opt)) xs)"
    using Cons.prems(2) by simp
  have fresh: "\<forall>e\<in>set (m_parameter_options ?s1). \<forall>y\<in>set xs.
      make_lower (longName e) \<noteq> make_lower (longName y)"
    using Cons.prems(2,3) by (auto simp: set1)
  from Cons.IH [OF inv1 d1 fresh] show ?case
    by (simp add: set1 len1)
qed

lemma foldl_append_concat:
  "foldl (\<lambda>acc x. acc @ f x) a xs = a @ concat (map f xs)"
  by (induction xs arbitrary: a) simp_all

lemma get_helpstring_concat:
  "get_helpstring s =
     m_executable_name s @ '' [options]'' @ [CHR 0x0A] @ '' where options are:'' @ [CHR 0x0A]
       @ concat (map help_line (m_parameter_options s))
       @ [CHR 0x0A, CHR 0x0A] @ ''(version 1.0)''"
  by (simp add: get_helpstring_def foldl_append_concat)

lemma help_lines_keep:
  assumes "map (\<lambda>opt. opt\<lparr>paramValue := []\<rparr>) r' = map (\<lambda>opt. opt\<lparr>paramValue := []\<rparr>) r"
  shows "map help_line r' = map help_line r"
proof -
  have "map help_line x = map help_line (map (\<lambda>opt. opt\<lparr>paramValue := []\<rparr>) x)" for x
    by (simp add: help_line_def)
  then show ?thesis using assms by metis
qed

lemma sorted_wrt_option_less_unique:
  "sorted_wrt option_less xs \<Longrightarrow> sorted_wrt option_less ys \<Longrightarrow> set xs = set ys \<Longrightarrow> xs = ys"
proof (induction xs arbitrary: ys)
  case Nil
  then show ?case by simp
next
  case (Cons x xs)
  then obtain y ys' where ys: "ys = y # ys'" by (cases ys) auto
  have xy: "x = y"
  proof (rule ccontr)
    assume "x \<noteq> y"
    with Cons.prems(3) ys have "x \<in> set ys'" and "y \<in> set xs" by auto
    with Cons.prems(1,2) ys have "option_less y x" and "option_less x y" by auto
    then show False using option_less_asym by blast
  qed
  have "x \<notin> set xs" using Cons.prems(1) option_less_irrefl by auto
  moreover have "y \<notin> set ys'" using Cons.prems(2) ys option_less_irrefl by auto
  ultimately have "set xs = set ys'" using Cons.prems(3) ys xy by auto
  with Cons.IH [of ys'] Cons.prems(1,2) ys xy show ?case by simp
qed

lemma ctor_registry:
  assumes "distinct (map (\<lambda>opt. make_lower (longName opt)) vec)"
  shows "sorted_wrt option_less (m_parameter_options (cmdParse_ctor vec))"
    and "set (m_parameter_options (cmdParse_ctor vec)) = set vec"
    and "length (m_parameter_options (cmdParse_ctor vec)) = length vec"
    and "m_executable_name (cmdParse_ctor vec) = []"
proof -
  have inv0: "set_inv (m_parameter_options cmdParse_default)"
    by (simp add: cmdParse_default_def set_inv_def)
  show "sorted_wrt option_less (m_parameter_options (cmdParse_ctor vec))"
    using ctor_fold_inv [OF inv0] by (simp add: cmdParse_ctor_def set_inv_def)
  have "\<forall>e\<in>set (m_parameter_options cmdParse_default). \<forall>x\<in>set vec.
      make_lower (longName e) \<noteq> make_lower (longName x)"
    by (simp add: cmdParse_default_def)
  from ctor_fold_set [OF inv0 assms this]
  show "set (m_parameter_options (cmdParse_ctor vec)) = set vec"
    and "length (m_parameter_options (cmdParse_ctor vec)) = length vec"
    by (simp_all add: cmdParse_ctor_def cmdParse_default_def)
  show "m_executable_name (cmdParse_ctor vec) = []"
    by (simp add: cmdParse_ctor_def ctor_fold_exe cmdParse_default_def)
qed

lemma ctor_inv: "set_inv (m_parameter_options (cmdParse_ctor vec))"
proof -
  have "set_inv (m_parameter_options cmdParse_default)"
    by (simp add: cmdParse_default_def set_inv_def)
  then show ?thesis unfolding cmdParse_ctor_def by (rule ctor_fold_inv)
qed

section \<open>A segment anywhere in the argument list\<close>

text \<open>
  The loop at a segment that is followed by the end of the arguments or by the next
  option-prefix token, and \<open>init\<close> on a parser that holds no arguments yet.
\<close>

lemma parse_from_segment:
  assumes "isOptionPrefix t" and "\<forall>a\<in>set cont. \<not> isOptionPrefix a"
    and "rest = [] \<or> isOptionPrefix (hd rest)"
  shows "parse_from (t # cont @ rest) s =
           (case update_option (concat (t # cont)) s of
              Inl f \<Rightarrow> Inl f
            | Inr (ok, s') \<Rightarrow> if ok then parse_from rest s' else Inr (False, s'))"
proof -
  have d: "dropWhile (\<lambda>t. \<not> isOptionPrefix t) (t # cont @ rest) = t # cont @ rest"
    using assms(1) by simp
  have r: "dropWhile (\<lambda>t. \<not> isOptionPrefix t) rest = rest"
    using assms(3) by (cases rest) auto
  have r': "takeWhile (\<lambda>t. \<not> isOptionPrefix t) rest = []"
    using assms(3) by (cases rest) auto
  have tk: "takeWhile (\<lambda>t. \<not> isOptionPrefix t) (cont @ rest) = cont"
    using assms(2) r' by (simp add: takeWhile_append2)
  have dr: "dropWhile (\<lambda>t. \<not> isOptionPrefix t) (cont @ rest) = rest"
    using assms(2) r by (simp add: dropWhile_append2)
  show ?thesis
    by (subst parse_from.simps) (simp only: d tk dr list.case if_False list.distinct)
qed

lemma init_fresh:
  assumes "m_arguments s = []"
  shows "init s (int (length toks) + 1) (exe # toks) =
           parse_from (map (\<lambda>a. trim a (CHR 0x20)) toks)
             (s\<lparr>m_executable_name := exe,
                m_arguments := map (\<lambda>a. trim a (CHR 0x20)) toks\<rparr>)"
  using assms by (simp add: init_def Let_def parseOptions_def)

lemma trim_head_not_space:
  assumes "trim t (CHR 0x20) = c # r"
  shows "\<not> isspace c"
proof -
  let ?l = "dropWhile isspace t"
  have "rev (dropWhile isspace (rev ?l)) @ rev (takeWhile isspace (rev ?l)) = ?l"
    by (metis rev_append rev_rev_ident takeWhile_dropWhile_id)
  moreover have "rev (dropWhile isspace (rev ?l)) = c # r"
    using assms by (simp add: trim_def ltrim_def)
  ultimately have l: "?l = c # (r @ rev (takeWhile isspace (rev ?l)))" by simp
  then have "hd ?l = c" by (metis list.sel(1))
  moreover have "?l \<noteq> []" using l by (metis list.distinct(1))
  ultimately show ?thesis using hd_dropWhile by metis
qed


text \<open>
  A name that runs on into the next token is longer than the declared name, so the
  segment does not match the declared option.
\<close>

lemma rtrim_keeps_prefix:
  assumes "\<not> isspace c"
  shows "\<exists>z. rev (dropWhile isspace (rev (a @ c # x))) = a @ c # z"
proof (cases "\<forall>y\<in>set (rev x). isspace y")
  case True
  then have "dropWhile isspace (rev x @ c # rev a) = dropWhile isspace (c # rev a)"
    by (intro dropWhile_append2) simp
  then show ?thesis using assms by simp
next
  case False
  then obtain y where "y \<in> set (rev x)" and "\<not> isspace y" by blast
  then have "dropWhile isspace (rev x @ c # rev a) = dropWhile isspace (rev x) @ c # rev a"
    by (rule dropWhile_append1)
  then show ?thesis by simp
qed

lemma tokenize_name_longer:
  assumes "n \<noteq> []" and "hd n \<noteq> CHR ''-''"
    and "\<forall>ch\<in>set n. \<not> is_delimiter ch \<and> \<not> isspace ch"
    and "\<not> isspace c" and "\<not> is_delimiter c"
    and "tokenize (''--'' @ n @ c # r) = Inr (full, name, val)"
  shows "full \<and> length n < length name"
proof -
  let ?x = "takeWhile (\<lambda>ch. \<not> is_delimiter ch) r"
  let ?m = "n @ c # ?x"
  show ?thesis
  proof (cases "dropWhile (\<lambda>ch. \<not> is_delimiter ch) r")
    case Nil
    then have "\<forall>ch\<in>set r. \<not> is_delimiter ch" by (simp add: dropWhile_eq_Nil_conv)
    moreover have "ltrim_char (''--'' @ n @ c # r) (CHR ''-'') = n @ c # r"
      using assms(1,2) by (cases n) (simp_all add: ltrim_char_def)
    ultimately have "tokenize (''--'' @ n @ c # r) = Inl StringIteratorPastEnd"
      using assms(3,5) by (intro tokenize_no_delimiter) auto
    with assms(6) show ?thesis by simp
  next
    case (Cons d v)
    then have d: "is_delimiter d" using hd_dropWhile [of "\<lambda>ch. \<not> is_delimiter ch" r] by auto
    have r: "r = ?x @ d # v" using Cons by (metis takeWhile_dropWhile_id)
    have nd: "\<forall>ch\<in>set ?m. \<not> is_delimiter ch"
      using assms(3,5) by (auto dest: set_takeWhileD)
    have "tokenize (''--'' @ ?m @ d # v)
        = Inr (''--'' = ''--'', trim ?m (CHR 0x20), trim (trim v (CHR 0x20)) (CHR 0x22))"
      using assms(1,2) nd d by (intro tokenize_split) simp_all
    moreover have "''--'' @ ?m @ d # v = ''--'' @ n @ c # r" using r by simp
    ultimately have "tokenize (''--'' @ n @ c # r)
        = Inr (True, trim ?m (CHR 0x20), trim (trim v (CHR 0x20)) (CHR 0x22))"
      by simp
    with assms(6) have full: "full" and name: "name = trim ?m (CHR 0x20)" by simp_all
    have "ltrim ?m = ?m" using assms(1,3) by (cases n) (simp_all add: ltrim_def)
    then have "trim ?m (CHR 0x20) = rev (dropWhile isspace (rev (n @ c # ?x)))"
      by (simp add: trim_def)
    with rtrim_keeps_prefix [OF assms(4), of n ?x] obtain z where "name = n @ c # z"
      using name by auto
    with full show ?thesis by simp
  qed
qed

lemma update_option_other_kept:
  assumes "set_inv (m_parameter_options s)" and "e \<in> set (m_parameter_options s)"
    and "\<not> matches s seg e"
    and "update_option seg s = Inr (ok, s1)"
  shows "e \<in> set (m_parameter_options s1)"
proof (cases "tokenize seg")
  case (Inl f)
  with assms(4) show ?thesis by (simp add: update_option_def)
next
  case (Inr r)
  obtain full name0 val where r: "r = (full, name0, val)" by (cases r)
  define name where "name = (if \<not> full then getFullOptionName s name0 else name0)"
  have nm: "make_lower name \<noteq> make_lower (longName e)"
    using assms(3) Inr r by (simp add: matches_def looked_up_name_def name_def)
  show ?thesis
  proof (cases "set_find (cmdOption_ctor name [] []) (m_parameter_options s)")
    case None
    with assms Inr r show ?thesis
      by (auto simp: update_option_def Let_def name_def logError_def split: if_splits)
  next
    case (Some itF)
    then have mem: "itF \<in> set (m_parameter_options s)"
      and k: "make_lower (longName itF) = make_lower name"
      using set_find_in [OF Some] by (simp_all add: cmdOption_ctor_def)
    have ne: "itF \<noteq> e" using k nm by auto
    have u: "fst (set_insert (itF\<lparr>paramValue := val\<rparr>) (set_erase itF (m_parameter_options s)))
             = map (\<lambda>opt. if opt = itF then itF\<lparr>paramValue := val\<rparr> else opt) (m_parameter_options s)"
      using assms(1) mem by (intro erase_insert_update) simp_all
    have "e \<in> set (map (\<lambda>opt. if opt = itF then itF\<lparr>paramValue := val\<rparr> else opt) (m_parameter_options s))"
      using assms(2) ne by force
    with assms(2,4) Inr r Some u show ?thesis
      by (auto simp: update_option_def Let_def name_def logError_def split: if_splits)
  qed
qed

lemma get_param_option_member:
  "set_inv (m_parameter_options s) \<Longrightarrow> e \<in> set (m_parameter_options s) \<Longrightarrow>
     get_param_option s (longName e) = e"
proof -
  assume "set_inv (m_parameter_options s)" and "e \<in> set (m_parameter_options s)"
  then have "set_find (cmdOption_ctor (longName e) [] []) (m_parameter_options s) = Some e"
    by (intro set_find_Some) (simp_all add: cmdOption_ctor_def)
  then show ?thesis by (simp add: get_param_option_def)
qed

section \<open>Options that no segment matches\<close>








section \<open>Values made of digits\<close>






section \<open>Option syntax: a value in a token of its own\<close>

text \<open>
  The tokens of a segment are concatenated with nothing between them, and \<open>init\<close>
  has trimmed each token before. A value in a token of its own, after \<^verbatim>\<open>--OutputFile\<close>,
  therefore runs into the name: the name read is \<^verbatim>\<open>OutputFileC\<close> and the parse returns
  false; with the value \<^verbatim>\<open>6\<close> after \<^verbatim>\<open>--option2\<close> the segment \<^verbatim>\<open>--option26\<close> holds no
  delimiter at all.
\<close>

theorem long_option_two_tokens_space_counterexample:
  "init (cmdParse_ctor [cmdOption_ctor ''OutputFile'' ''output.txt'' ''o'']) 3
       [''Sample.exe'', ''--OutputFile'', ''C://Temp//'']
     = Inr (False,
         \<lparr>m_executable_name = ''Sample.exe'',
          m_arguments = [''--OutputFile'', ''C://Temp//''],
          m_parameter_options =
            [\<lparr>longName = ''OutputFile'', shortName = ''o'', defaultValue = ''output.txt'',
              paramValue = []\<rparr>],
          m_errors = [''Option not found: OutputFileC'']\<rparr>)
   \<and> init (cmdParse_ctor [cmdOption_ctor ''option2'' ''2'' []]) 3
       [''Sample.exe'', ''--option2'', ''6'']
     = Inl StringIteratorPastEnd"
  by code_simp

text \<open>
  C1 (amended): for every parser, its registry in the order of the set, with a declared
  option named \<open>n\<close> (a name without delimiter or white-space characters that does
  not start with \<^verbatim>\<open>-\<close>), wherever the loop stands at the token \<^verbatim>\<open>--n\<close> followed by one
  token that does not start with \<^verbatim>\<open>-\<close> and then by the end of the arguments or the next
  option-prefix token: the two tokens are concatenated with nothing between them; when
  the second token starts with \<^verbatim>\<open>:\<close> or \<^verbatim>\<open>=\<close>, the rest of it, trimmed of white space
  and then of double quotes, is assigned to the option and the parse goes on with the
  remaining tokens, just as for the single tokens \<^verbatim>\<open>--n=v\<close>, \<^verbatim>\<open>--n:v\<close> and \<^verbatim>\<open>--n v\<close>;
  when it starts with another character that is no white space, the segment does not
  assign the option, whatever the loop body returns. On a parser that holds no
  arguments yet, \<open>init\<close>, which trims each token, reaches the first segment at once:
  the value token is recognized when it starts, once trimmed, with \<^verbatim>\<open>:\<close> or \<^verbatim>\<open>=\<close>
  (the same for one token that is, once trimmed, \<^verbatim>\<open>--n\<close>, a delimiter and the value),
  and the parse goes on with the further tokens, of which the first is an
  option-prefix token; for a value token that, once trimmed, starts with none of
  \<^verbatim>\<open>-\<close>, \<^verbatim>\<open>:\<close>, \<^verbatim>\<open>=\<close>, the option named \<open>n\<close> is read back unchanged after every
  \<open>init\<close> on \<^verbatim>\<open>--n\<close> and that token that returns.
\<close>

theorem long_option_value_token:
  assumes inv: "set_inv (m_parameter_options s)"
    and mem: "e \<in> set (m_parameter_options s)" and nm: "longName e = n"
    and n: "n \<noteq> []" "hd n \<noteq> CHR ''-''" "\<forall>ch\<in>set n. \<not> is_delimiter ch \<and> \<not> isspace ch"
    and rest: "rest = [] \<or> isOptionPrefix (hd rest)"
  shows
    "(d = CHR '':'' \<or> d = CHR ''='' \<longrightarrow>
        parse_from ((''--'' @ n) # (d # v) # rest) s
          = parse_from rest (s\<lparr>m_parameter_options :=
                  map (\<lambda>opt. if opt = e
                              then e\<lparr>paramValue := trim (trim v (CHR 0x20)) (CHR 0x22)\<rparr>
                              else opt)
                    (m_parameter_options s)\<rparr>))
     \<and> (is_delimiter d \<longrightarrow>
        parse_from ((''--'' @ n @ d # v) # rest) s
          = parse_from rest (s\<lparr>m_parameter_options :=
                  map (\<lambda>opt. if opt = e
                              then e\<lparr>paramValue := trim (trim v (CHR 0x20)) (CHR 0x22)\<rparr>
                              else opt)
                    (m_parameter_options s)\<rparr>))
     \<and> (\<not> isspace c \<and> c \<noteq> CHR ''-'' \<and> c \<noteq> CHR '':'' \<and> c \<noteq> CHR ''='' \<longrightarrow>
        parse_from ((''--'' @ n) # (c # r) # rest) s
          = (case update_option (''--'' @ n @ c # r) s of
               Inl f \<Rightarrow> Inl f
             | Inr (ok, s1) \<Rightarrow> if ok then parse_from rest s1 else Inr (False, s1))
        \<and> (\<forall>ok s1. update_option (''--'' @ n @ c # r) s = Inr (ok, s1) \<longrightarrow>
                get_param_option s1 n = e))
     \<and> (m_arguments s = [] \<and> (d = CHR '':'' \<or> d = CHR ''='') \<and> trim t2 (CHR 0x20) = d # v
          \<and> rest = map (\<lambda>a. trim a (CHR 0x20)) extra \<longrightarrow>
        init s (int (length extra) + 3) (exe # (''--'' @ n) # t2 # extra)
          = parse_from rest
              (s\<lparr>m_executable_name := exe,
                 m_arguments := (''--'' @ n) # (d # v) # rest,
                 m_parameter_options :=
                  map (\<lambda>opt. if opt = e
                              then e\<lparr>paramValue := trim (trim v (CHR 0x20)) (CHR 0x22)\<rparr>
                              else opt)
                    (m_parameter_options s)\<rparr>))
     \<and> (m_arguments s = [] \<and> is_delimiter d \<and> trim t1 (CHR 0x20) = ''--'' @ n @ d # v
          \<and> rest = map (\<lambda>a. trim a (CHR 0x20)) extra \<longrightarrow>
        init s (int (length extra) + 2) (exe # t1 # extra)
          = parse_from rest
              (s\<lparr>m_executable_name := exe,
                 m_arguments := (''--'' @ n @ d # v) # rest,
                 m_parameter_options :=
                  map (\<lambda>opt. if opt = e
                              then e\<lparr>paramValue := trim (trim v (CHR 0x20)) (CHR 0x22)\<rparr>
                              else opt)
                    (m_parameter_options s)\<rparr>))
     \<and> (m_arguments s = [] \<and> \<not> isOptionPrefix (trim t2 (CHR 0x20))
          \<and> (\<forall>w. trim t2 (CHR 0x20) \<noteq> CHR '':'' # w \<and> trim t2 (CHR 0x20) \<noteq> CHR ''='' # w) \<longrightarrow>
        (\<forall>ok s'. init s 3 [exe, ''--'' @ n, t2] = Inr (ok, s') \<longrightarrow> get_param_option s' n = e))"
proof -
  let ?U = "map (\<lambda>opt. if opt = e
                              then e\<lparr>paramValue := trim (trim v (CHR 0x20)) (CHR 0x22)\<rparr>
                              else opt)
                    (m_parameter_options s)"
  have key: "make_lower (longName e) = make_lower n" by (simp add: nm)
  have pre: "isOptionPrefix (''--'' @ n)" by (simp add: isOptionPrefix_Cons)
  have trn: "trim n (CHR 0x20) = n" using n by (intro trim_space_id) simp
  have trt: "trim (''--'' @ n) (CHR 0x20) = ''--'' @ n"
    using n by (intro trim_space_id disjI2 conjI) (simp_all add: isspace_def)
  have upd: "update_option (''--'' @ n @ d # v) s' = Inr (True, s'\<lparr>m_parameter_options := ?U\<rparr>)"
    if "is_delimiter d" and "m_parameter_options s' = m_parameter_options s" for d s'
  proof -
    have tok: "tokenize (''--'' @ n @ d # v)
        = Inr (True, n, trim (trim v (CHR 0x20)) (CHR 0x22))"
      using tokenize_split [of n d "''--''" v] n that(1) trn by simp
    show ?thesis
      using update_option_long [of s' e n "''--'' @ n @ d # v", OF _ _ key tok] inv mem that(2)
      by simp
  qed
  have two: "parse_from ((''--'' @ n) # (d # v) # rest) s'
          = parse_from rest (s'\<lparr>m_parameter_options := ?U\<rparr>)"
    if "d = CHR '':'' \<or> d = CHR ''=''" and "m_parameter_options s' = m_parameter_options s" for d s'
  proof -
    have del: "is_delimiter d" using that(1) by (auto simp: is_delimiter_def)
    have np: "\<forall>a\<in>set [d # v]. \<not> isOptionPrefix a" using that(1) by (auto simp: isOptionPrefix_Cons)
    show ?thesis
      using parse_from_segment [OF pre np rest, of s'] upd [OF del that(2)] by simp
  qed
  have one: "parse_from ((''--'' @ n @ d # v) # rest) s'
          = parse_from rest (s'\<lparr>m_parameter_options := ?U\<rparr>)"
    if "is_delimiter d" and "m_parameter_options s' = m_parameter_options s" for d s'
  proof -
    have p: "isOptionPrefix (''--'' @ n @ d # v)" by (simp add: isOptionPrefix_Cons)
    have np: "\<forall>a\<in>set []. \<not> isOptionPrefix a" by simp
    show ?thesis
      using parse_from_segment [OF p np rest, of s'] upd [OF that] by simp
  qed
  have neg_parse: "parse_from ((''--'' @ n) # (c # r) # rest') s'
          = (case update_option (''--'' @ n @ c # r) s' of
               Inl f \<Rightarrow> Inl f
             | Inr (ok, s1) \<Rightarrow> if ok then parse_from rest' s1 else Inr (False, s1))"
    if "c \<noteq> CHR ''-''" and "rest' = [] \<or> isOptionPrefix (hd rest')" for c r rest' s'
  proof -
    have np: "\<forall>a\<in>set [c # r]. \<not> isOptionPrefix a" using that(1) by (simp add: isOptionPrefix_Cons)
    show ?thesis using parse_from_segment [OF pre np that(2), of s'] by simp
  qed
  have neg_upd: "get_param_option s1 n = e"
    if "\<not> isspace c" and "c \<noteq> CHR '':''" and "c \<noteq> CHR ''=''"
      and "update_option (''--'' @ n @ c # r) s' = Inr (ok, s1)"
      and "m_parameter_options s' = m_parameter_options s" for c r s' ok s1
  proof -
    have nd: "\<not> is_delimiter c" using that(1,2,3) by (auto simp: is_delimiter_def isspace_def)
    have inv': "set_inv (m_parameter_options s')" and mem': "e \<in> set (m_parameter_options s')"
      using inv mem that(5) by simp_all
    have "\<not> matches s' (''--'' @ n @ c # r) e"
    proof (cases "tokenize (''--'' @ n @ c # r)")
      case (Inl f)
      then show ?thesis by (simp add: matches_def looked_up_name_def)
    next
      case (Inr x)
      obtain full name val where x: "x = (full, name, val)" by (cases x)
      have "tokenize (''--'' @ n @ c # r) = Inr (full, name, val)" using Inr x by simp
      from tokenize_name_longer [OF n that(1) nd this]
      have "full" and "length n < length name" by simp_all
      then have "make_lower name \<noteq> make_lower n"
        by (metis length_map make_lower_def less_irrefl)
      with Inr x \<open>full\<close> show ?thesis by (simp add: matches_def looked_up_name_def nm)
    qed
    from update_option_other_kept [OF inv' mem' this that(4)]
    have "e \<in> set (m_parameter_options s1)" .
    moreover have "set_inv (m_parameter_options s1)"
      using update_option_keeps [OF inv' that(4)] by simp
    ultimately show ?thesis using get_param_option_member [of s1 e] by (simp add: nm)
  qed
  show ?thesis
  proof (intro conjI impI allI)
    assume "d = CHR '':'' \<or> d = CHR ''=''"
    then show "parse_from ((''--'' @ n) # (d # v) # rest) s
          = parse_from rest (s\<lparr>m_parameter_options := ?U\<rparr>)"
      by (intro two) simp_all
  next
    assume "is_delimiter d"
    then show "parse_from ((''--'' @ n @ d # v) # rest) s
          = parse_from rest (s\<lparr>m_parameter_options := ?U\<rparr>)"
      by (intro one) simp_all
  next
    assume "\<not> isspace c \<and> c \<noteq> CHR ''-'' \<and> c \<noteq> CHR '':'' \<and> c \<noteq> CHR ''='' "
    then show "parse_from ((''--'' @ n) # (c # r) # rest) s
          = (case update_option (''--'' @ n @ c # r) s of
               Inl f \<Rightarrow> Inl f
             | Inr (ok, s1) \<Rightarrow> if ok then parse_from rest s1 else Inr (False, s1))"
      using rest by (intro neg_parse) simp_all
  next
    fix ok s1
    assume "\<not> isspace c \<and> c \<noteq> CHR ''-'' \<and> c \<noteq> CHR '':'' \<and> c \<noteq> CHR ''='' "
      and "update_option (''--'' @ n @ c # r) s = Inr (ok, s1)"
    then show "get_param_option s1 n = e"
      using neg_upd [of c r s ok s1] by simp
  next
    assume a: "m_arguments s = [] \<and> (d = CHR '':'' \<or> d = CHR ''='') \<and> trim t2 (CHR 0x20) = d # v
          \<and> rest = map (\<lambda>a. trim a (CHR 0x20)) extra"
    let ?s2 = "s\<lparr>m_executable_name := exe,
                  m_arguments := map (\<lambda>a. trim a (CHR 0x20)) ((''--'' @ n) # t2 # extra)\<rparr>"
    have i: "init s (int (length ((''--'' @ n) # t2 # extra)) + 1) (exe # (''--'' @ n) # t2 # extra)
        = parse_from (map (\<lambda>a. trim a (CHR 0x20)) ((''--'' @ n) # t2 # extra)) ?s2"
      using a by (intro init_fresh) simp
    have m: "map (\<lambda>a. trim a (CHR 0x20)) ((''--'' @ n) # t2 # extra) = (''--'' @ n) # (d # v) # rest"
      using a trt by simp
    have "parse_from ((''--'' @ n) # (d # v) # rest) ?s2
        = parse_from rest (?s2\<lparr>m_parameter_options := ?U\<rparr>)"
      using a by (intro two) simp_all
    with i show "init s (int (length extra) + 3) (exe # (''--'' @ n) # t2 # extra)
          = parse_from rest
              (s\<lparr>m_executable_name := exe,
                 m_arguments := (''--'' @ n) # (d # v) # rest,
                 m_parameter_options := ?U\<rparr>)"
      unfolding m by (simp add: add.commute)
  next
    assume a: "m_arguments s = [] \<and> is_delimiter d \<and> trim t1 (CHR 0x20) = ''--'' @ n @ d # v
          \<and> rest = map (\<lambda>a. trim a (CHR 0x20)) extra"
    let ?s2 = "s\<lparr>m_executable_name := exe,
                  m_arguments := map (\<lambda>a. trim a (CHR 0x20)) (t1 # extra)\<rparr>"
    have i: "init s (int (length (t1 # extra)) + 1) (exe # t1 # extra)
        = parse_from (map (\<lambda>a. trim a (CHR 0x20)) (t1 # extra)) ?s2"
      using a by (intro init_fresh) simp
    have m: "map (\<lambda>a. trim a (CHR 0x20)) (t1 # extra) = (''--'' @ n @ d # v) # rest"
      using a by simp
    have "parse_from ((''--'' @ n @ d # v) # rest) ?s2
        = parse_from rest (?s2\<lparr>m_parameter_options := ?U\<rparr>)"
      using a by (intro one) simp_all
    with i show "init s (int (length extra) + 2) (exe # t1 # extra)
          = parse_from rest
              (s\<lparr>m_executable_name := exe,
                 m_arguments := (''--'' @ n @ d # v) # rest,
                 m_parameter_options := ?U\<rparr>)"
      unfolding m by (simp add: add.commute)
  next
    fix ok s'
    assume a: "m_arguments s = [] \<and> \<not> isOptionPrefix (trim t2 (CHR 0x20))
          \<and> (\<forall>w. trim t2 (CHR 0x20) \<noteq> CHR '':'' # w \<and> trim t2 (CHR 0x20) \<noteq> CHR ''='' # w)"
      and r: "init s 3 [exe, ''--'' @ n, t2] = Inr (ok, s')"
    let ?t = "trim t2 (CHR 0x20)"
    let ?s2 = "s\<lparr>m_executable_name := exe, m_arguments := [''--'' @ n, ?t]\<rparr>"
    have "init s (int (length [''--'' @ n, t2]) + 1) (exe # [''--'' @ n, t2])
        = parse_from (map (\<lambda>a. trim a (CHR 0x20)) [''--'' @ n, t2])
            (s\<lparr>m_executable_name := exe,
               m_arguments := map (\<lambda>a. trim a (CHR 0x20)) [''--'' @ n, t2]\<rparr>)"
      using a by (intro init_fresh) simp
    then have i: "init s 3 [exe, ''--'' @ n, t2] = parse_from [''--'' @ n, ?t] ?s2"
      using trt by simp
    have np: "\<forall>a\<in>set [?t]. \<not> isOptionPrefix a" using a by simp
    have p: "parse_from [''--'' @ n, ?t] ?s2
        = (case update_option (''--'' @ n @ ?t) ?s2 of
             Inl f \<Rightarrow> Inl f
           | Inr (ok, s1) \<Rightarrow> if ok then parse_from [] s1 else Inr (False, s1))"
      using parse_from_segment [OF pre np, of "[]" ?s2] by simp
    show "get_param_option s' n = e"
    proof (cases ?t)
      case Nil
      have "tokenize (''--'' @ n) = Inl StringIteratorPastEnd"
        using n by (intro tokenize_no_delimiter) (cases n, simp_all add: ltrim_char_def)
      then have "update_option (''--'' @ n @ ?t) ?s2 = Inl StringIteratorPastEnd"
        unfolding Nil by (simp add: update_option_def)
      with r i p show ?thesis by simp
    next
      case (Cons c r')
      have c: "\<not> isspace c" using trim_head_not_space [OF Cons] .
      have c2: "c \<noteq> CHR '':''" "c \<noteq> CHR ''=''" using a Cons by auto
      from r i p obtain ok1 s1 where u: "update_option (''--'' @ n @ c # r') ?s2 = Inr (ok1, s1)"
        and s': "s' = s1"
        unfolding Cons by (auto simp: parse_from_Nil split: sum.splits if_splits)
      from neg_upd [OF c c2 u] show ?thesis using s' by simp
    qed
  qed
qed

theorem long_option_value_token_witness:
  "init (cmdParse_ctor [cmdOption_ctor ''option1'' ''1'' [], cmdOption_ctor ''option2'' ''2'' []]) 4
       [''Sample.exe'', ''--option2'', '' =6'', ''--option1:5'']
     = Inr (True,
         \<lparr>m_executable_name = ''Sample.exe'',
          m_arguments = [''--option2'', ''=6'', ''--option1:5''],
          m_parameter_options =
            [\<lparr>longName = ''option1'', shortName = ''option1'', defaultValue = ''1'',
              paramValue = ''5''\<rparr>,
             \<lparr>longName = ''option2'', shortName = ''option2'', defaultValue = ''2'',
              paramValue = ''6''\<rparr>],
          m_errors = []\<rparr>)
   \<and> init (cmdParse_ctor [cmdOption_ctor ''option1'' ''1'' [], cmdOption_ctor ''option2'' ''2'' []]) 2
       [''Sample.exe'', ''--option2 6'']
     = Inr (True,
         \<lparr>m_executable_name = ''Sample.exe'',
          m_arguments = [''--option2 6''],
          m_parameter_options =
            [\<lparr>longName = ''option1'', shortName = ''option1'', defaultValue = ''1'',
              paramValue = []\<rparr>,
             \<lparr>longName = ''option2'', shortName = ''option2'', defaultValue = ''2'',
              paramValue = ''6''\<rparr>],
          m_errors = []\<rparr>)
   \<and> init (cmdParse_ctor [cmdOption_ctor ''option1'' ''1'' [], cmdOption_ctor ''option2'' ''2'' []]) 3
       [''Sample.exe'', ''--option2'', ''x:6'']
     = Inr (False,
         \<lparr>m_executable_name = ''Sample.exe'',
          m_arguments = [''--option2'', ''x:6''],
          m_parameter_options =
            [\<lparr>longName = ''option1'', shortName = ''option1'', defaultValue = ''1'',
              paramValue = []\<rparr>,
             \<lparr>longName = ''option2'', shortName = ''option2'', defaultValue = ''2'',
              paramValue = []\<rparr>],
          m_errors = [''Option not found: option2x'']\<rparr>)
   \<and> get_param_option
         \<lparr>m_executable_name = ''Sample.exe'',
          m_arguments = [''--option2'', ''x:6''],
          m_parameter_options =
            [\<lparr>longName = ''option1'', shortName = ''option1'', defaultValue = ''1'',
              paramValue = []\<rparr>,
             \<lparr>longName = ''option2'', shortName = ''option2'', defaultValue = ''2'',
              paramValue = []\<rparr>],
          m_errors = [''Option not found: option2x'']\<rparr> ''option2''
       = cmdOption_ctor ''option2'' ''2'' []"
proof -
  let ?s = "cmdParse_ctor [cmdOption_ctor ''option1'' ''1'' [], cmdOption_ctor ''option2'' ''2'' []]"
  let ?e = "cmdOption_ctor ''option2'' ''2'' []"
  let ?S3 = "\<lparr>m_executable_name = ''Sample.exe'',
          m_arguments = [''--option2'', ''x:6''],
          m_parameter_options =
            [\<lparr>longName = ''option1'', shortName = ''option1'', defaultValue = ''1'',
              paramValue = []\<rparr>,
             \<lparr>longName = ''option2'', shortName = ''option2'', defaultValue = ''2'',
              paramValue = []\<rparr>],
          m_errors = [''Option not found: option2x'']\<rparr>"
  have h1: "set_inv (m_parameter_options ?s)" by code_simp
  have h2: "?e \<in> set (m_parameter_options ?s)" by code_simp
  have h3: "longName ?e = ''option2''" by code_simp
  have h4: "''option2'' \<noteq> []" by simp
  have h5: "hd ''option2'' \<noteq> CHR ''-''" by simp
  have h6: "\<forall>ch\<in>set ''option2''. \<not> is_delimiter ch \<and> \<not> isspace ch"
    by (simp add: is_delimiter_def isspace_def)
  have r1: "[''--option1:5''] = [] \<or> isOptionPrefix (hd [''--option1:5''])"
    by (simp add: isOptionPrefix_def)
  have r0: "([]::string list) = [] \<or> isOptionPrefix (hd [])" by simp
  have fresh: "m_arguments ?s = []" by code_simp
  \<comment> \<open>the value in a token of its own that starts, once trimmed, with the delimiter\<close>
  have a1: "trim '' =6'' (CHR 0x20) = CHR ''='' # ''6''" by code_simp
  have a2: "[''--option1:5''] = map (\<lambda>a. trim a (CHR 0x20)) [''--option1:5'']" by code_simp
  note t1 = long_option_value_token [OF h1 h2 h3 h4 h5 h6 r1,
      where d = "CHR ''=''" and v = "''6''" and ?t2.0 = "'' =6''"
        and extra = "[''--option1:5'']" and exe = "''Sample.exe''",
      THEN conjunct2, THEN conjunct2, THEN conjunct2, THEN conjunct1, THEN mp]
  have "m_arguments ?s = [] \<and> (CHR ''='' = CHR '':'' \<or> CHR ''='' = CHR ''='')
      \<and> trim '' =6'' (CHR 0x20) = CHR ''='' # ''6''
      \<and> [''--option1:5''] = map (\<lambda>a. trim a (CHR 0x20)) [''--option1:5'']"
    using fresh a1 a2 by blast
  from t1 [OF this]
  have "init ?s (int (length [''--option1:5'']) + 3)
          (''Sample.exe'' # (''--'' @ ''option2'') # '' =6'' # [''--option1:5''])
      = parse_from [''--option1:5'']
          (?s\<lparr>m_executable_name := ''Sample.exe'',
               m_arguments := (''--'' @ ''option2'') # (CHR ''='' # ''6'') # [''--option1:5''],
               m_parameter_options :=
                 map (\<lambda>opt. if opt = ?e
                            then ?e\<lparr>paramValue := trim (trim ''6'' (CHR 0x20)) (CHR 0x22)\<rparr>
                            else opt)
                   (m_parameter_options ?s)\<rparr>)" .
  moreover have "parse_from [''--option1:5'']
          (?s\<lparr>m_executable_name := ''Sample.exe'',
               m_arguments := (''--'' @ ''option2'') # (CHR ''='' # ''6'') # [''--option1:5''],
               m_parameter_options :=
                 map (\<lambda>opt. if opt = ?e
                            then ?e\<lparr>paramValue := trim (trim ''6'' (CHR 0x20)) (CHR 0x22)\<rparr>
                            else opt)
                   (m_parameter_options ?s)\<rparr>)
      = Inr (True,
         \<lparr>m_executable_name = ''Sample.exe'',
          m_arguments = [''--option2'', ''=6'', ''--option1:5''],
          m_parameter_options =
            [\<lparr>longName = ''option1'', shortName = ''option1'', defaultValue = ''1'',
              paramValue = ''5''\<rparr>,
             \<lparr>longName = ''option2'', shortName = ''option2'', defaultValue = ''2'',
              paramValue = ''6''\<rparr>],
          m_errors = []\<rparr>)"
    by code_simp
  ultimately have c1: "init ?s 4 [''Sample.exe'', ''--option2'', '' =6'', ''--option1:5'']
      = Inr (True,
         \<lparr>m_executable_name = ''Sample.exe'',
          m_arguments = [''--option2'', ''=6'', ''--option1:5''],
          m_parameter_options =
            [\<lparr>longName = ''option1'', shortName = ''option1'', defaultValue = ''1'',
              paramValue = ''5''\<rparr>,
             \<lparr>longName = ''option2'', shortName = ''option2'', defaultValue = ''2'',
              paramValue = ''6''\<rparr>],
          m_errors = []\<rparr>)"
    by simp
  \<comment> \<open>the space inside one token\<close>
  have b1: "is_delimiter (CHR 0x20)" by (simp add: is_delimiter_def)
  have b2: "trim ''--option2 6'' (CHR 0x20) = ''--'' @ ''option2'' @ CHR 0x20 # ''6''" by code_simp
  have b3: "([]::string list) = map (\<lambda>a. trim a (CHR 0x20)) []" by simp
  note t2 = long_option_value_token [OF h1 h2 h3 h4 h5 h6 r0,
      where d = "CHR 0x20" and v = "''6''" and ?t1.0 = "''--option2 6''"
        and extra = "[]" and exe = "''Sample.exe''",
      THEN conjunct2, THEN conjunct2, THEN conjunct2, THEN conjunct2, THEN conjunct1, THEN mp]
  have "m_arguments ?s = [] \<and> is_delimiter (CHR 0x20)
      \<and> trim ''--option2 6'' (CHR 0x20) = ''--'' @ ''option2'' @ CHR 0x20 # ''6''
      \<and> [] = map (\<lambda>a. trim a (CHR 0x20)) []"
    using fresh b1 b2 b3 by blast
  from t2 [OF this]
  have "init ?s (int (length ([]::string list)) + 2) (''Sample.exe'' # ''--option2 6'' # [])
      = parse_from []
          (?s\<lparr>m_executable_name := ''Sample.exe'',
               m_arguments := (''--'' @ ''option2'' @ CHR 0x20 # ''6'') # [],
               m_parameter_options :=
                 map (\<lambda>opt. if opt = ?e
                            then ?e\<lparr>paramValue := trim (trim ''6'' (CHR 0x20)) (CHR 0x22)\<rparr>
                            else opt)
                   (m_parameter_options ?s)\<rparr>)" .
  moreover have "parse_from []
          (?s\<lparr>m_executable_name := ''Sample.exe'',
               m_arguments := (''--'' @ ''option2'' @ CHR 0x20 # ''6'') # [],
               m_parameter_options :=
                 map (\<lambda>opt. if opt = ?e
                            then ?e\<lparr>paramValue := trim (trim ''6'' (CHR 0x20)) (CHR 0x22)\<rparr>
                            else opt)
                   (m_parameter_options ?s)\<rparr>)
      = Inr (True,
         \<lparr>m_executable_name = ''Sample.exe'',
          m_arguments = [''--option2 6''],
          m_parameter_options =
            [\<lparr>longName = ''option1'', shortName = ''option1'', defaultValue = ''1'',
              paramValue = []\<rparr>,
             \<lparr>longName = ''option2'', shortName = ''option2'', defaultValue = ''2'',
              paramValue = ''6''\<rparr>],
          m_errors = []\<rparr>)"
    by code_simp
  ultimately have c2: "init ?s 2 [''Sample.exe'', ''--option2 6'']
      = Inr (True,
         \<lparr>m_executable_name = ''Sample.exe'',
          m_arguments = [''--option2 6''],
          m_parameter_options =
            [\<lparr>longName = ''option1'', shortName = ''option1'', defaultValue = ''1'',
              paramValue = []\<rparr>,
             \<lparr>longName = ''option2'', shortName = ''option2'', defaultValue = ''2'',
              paramValue = ''6''\<rparr>],
          m_errors = []\<rparr>)"
    by simp
  \<comment> \<open>the value in a token of its own with no delimiter in front\<close>
  have d1: "\<not> isOptionPrefix (trim ''x:6'' (CHR 0x20))" by code_simp
  have d2: "\<forall>w. trim ''x:6'' (CHR 0x20) \<noteq> CHR '':'' # w \<and> trim ''x:6'' (CHR 0x20) \<noteq> CHR ''='' # w"
  proof -
    have "trim ''x:6'' (CHR 0x20) = ''x:6''" by code_simp
    then show ?thesis by simp
  qed
  have c3: "init ?s 3 [''Sample.exe'', ''--option2'', ''x:6''] = Inr (False, ?S3)"
    by code_simp
  note t3 = long_option_value_token [OF h1 h2 h3 h4 h5 h6 r0,
      where ?t2.0 = "''x:6''" and exe = "''Sample.exe''",
      THEN conjunct2, THEN conjunct2, THEN conjunct2, THEN conjunct2, THEN conjunct2, THEN mp]
  have "m_arguments ?s = [] \<and> \<not> isOptionPrefix (trim ''x:6'' (CHR 0x20))
      \<and> (\<forall>w. trim ''x:6'' (CHR 0x20) \<noteq> CHR '':'' # w
             \<and> trim ''x:6'' (CHR 0x20) \<noteq> CHR ''='' # w)"
    using fresh d1 d2 by blast
  from t3 [OF this]
  have "\<forall>ok s'. init ?s 3 [''Sample.exe'', ''--'' @ ''option2'', ''x:6''] = Inr (ok, s') \<longrightarrow>
          get_param_option s' ''option2'' = ?e" .
  then have fa: "\<forall>ok s'. init ?s 3 [''Sample.exe'', ''--option2'', ''x:6''] = Inr (ok, s') \<longrightarrow>
          get_param_option s' ''option2'' = ?e"
    by simp
  have c4: "get_param_option ?S3 ''option2'' = ?e"
    by (rule fa [rule_format, OF c3])
  from c1 c2 c3 c4 show ?thesis by blast
qed

section \<open>Default value and assigned value\<close>




section \<open>Segments without a delimiter\<close>

text \<open>
  C3: a segment whose stripped text holds no delimiter should give the whole text
  as the name and the empty value. The source starts the value loop at
  \<^verbatim>\<open>value_iterator + 1\<close>, which is one beyond \<^verbatim>\<open>end()\<close> when no delimiter was found:
  for the declared flag \<^verbatim>\<open>--verbose\<close> the tokenizer, and with it \<open>init\<close>, has no
  defined result.
\<close>

theorem tokenize_no_delimiter_past_end:
  "tokenize ''--verbose'' = Inl StringIteratorPastEnd \<and>
   init (cmdParse_ctor [cmdOption_ctor ''verbose'' [] ''v'']) 2 [''Sample.exe'', ''--verbose'']
     = Inl StringIteratorPastEnd"
  by code_simp

section \<open>Arguments without an option prefix\<close>

text \<open>
  Whenever tokens remain from the cursor and none of them starts with \<^verbatim>\<open>-\<close>, the loop
  steps beyond the end of the argument list; so does \<open>init\<close> on a fresh parser for
  every such \<open>argv\<close> with \<open>argc > 1\<close>.
\<close>

lemma parse_from_no_option_prefix:
  "cursor \<noteq> [] \<Longrightarrow> \<forall>t\<in>set cursor. \<not> isOptionPrefix t \<Longrightarrow>
     parse_from cursor s = Inl VectorIteratorPastEnd"
proof -
  assume ne: "cursor \<noteq> []" and "\<forall>t\<in>set cursor. \<not> isOptionPrefix t"
  then have d: "dropWhile (\<lambda>t. \<not> isOptionPrefix t) cursor = []"
    by (simp add: dropWhile_eq_Nil_conv)
  show ?thesis by (subst parse_from.simps) (simp only: ne d if_False list.case)
qed

lemma init_no_option_prefix:
  assumes "1 < argc" and "argc \<le> int (length argv)" and "m_arguments s = []"
    and "\<forall>t\<in>set (take (nat argc - 1) (tl argv)). \<not> isOptionPrefix (trim t (CHR 0x20))"
  shows "init s argc argv = Inl VectorIteratorPastEnd"
proof -
  let ?args = "map (\<lambda>a. trim a (CHR 0x20)) (take (nat argc - 1) (tl argv))"
  have "length (tl argv) = length argv - 1" by simp
  with assms(1,2) have "take (nat argc - 1) (tl argv) \<noteq> []"
    by (cases argv) auto
  then have ne: "?args \<noteq> []" by simp
  have np: "\<forall>t\<in>set ?args. \<not> isOptionPrefix t" using assms(4) by simp
  show ?thesis
    using assms(1,2,3) parse_from_no_option_prefix [OF ne np]
    by (simp add: init_def Let_def parseOptions_def)
qed

text \<open>
  C4: with tokens after the executable name of which none starts with \<^verbatim>\<open>-\<close>, \<open>init\<close>
  should return true and keep \<open>argc - 1\<close> raw arguments. The source evaluates
  \<^verbatim>\<open>start+1\<close> before it compares \<open>start\<close> with \<^verbatim>\<open>m_arguments.end()\<close>, so for
  \<^verbatim>\<open>{"sample.exe", "opt1"}\<close> there is no defined result.
\<close>

theorem init_no_option_prefix_past_end:
  "init cmdParse_default 2 [''sample.exe'', ''opt1''] = Inl VectorIteratorPastEnd"
  by code_simp

section \<open>Unknown options\<close>

text \<open>
  Whatever the short name, when no option has it the message carries no name.
\<close>

lemma update_option_short_unresolved:
  assumes "tokenize seg = Inr (False, short, val)"
    and "find (\<lambda>opt. shortName opt = short) (m_parameter_options s) = None"
  shows "update_option seg s = Inr (False, s\<lparr>m_errors := m_errors s @ [''Option not found: '']\<rparr>)"
  using assms by (simp add: update_option_def getFullOptionName_def logError_def)

text \<open>
  C5: an unknown option should abort the parse with the error
  "Option not found: <name>". For a short name that does not resolve, the source
  overwrites \<open>name\<close> with the empty result of the resolution before it builds the
  message: after \<^verbatim>\<open>-a:16\<close>, the segment \<^verbatim>\<open>-z:1\<close> records "Option not found: " with no
  name. \<open>init\<close> returns false and \<open>optionA\<close> keeps the value 16.
\<close>

theorem short_option_not_found_no_name:
  "init (cmdParse_ctor [cmdOption_ctor ''optionA'' ''3'' ''a'']) 3
       [''Sample.exe'', ''-a:16'', ''-z:1'']
     = Inr (False,
         \<lparr>m_executable_name = ''Sample.exe'',
          m_arguments = [''-a:16'', ''-z:1''],
          m_parameter_options =
            [\<lparr>longName = ''optionA'', shortName = ''a'', defaultValue = ''3'',
              paramValue = ''16''\<rparr>],
          m_errors = [''Option not found: '']\<rparr>)"
  by code_simp

section \<open>Duplicate declarations\<close>

text \<open>Every declaration keeps the invariant of the container.\<close>

lemma add_param_option_inv:
  "set_inv (m_parameter_options s) \<Longrightarrow> set_inv (m_parameter_options (snd (add_param_option s opt)))"
  by (simp add: add_param_option_registry set_insert_inv)

text \<open>
  C6: in every registry state, adding an option whose long name equals a registered
  long name case-insensitively returns false, leaves the registry (its size and the
  registered entry) unchanged and appends exactly one error,
  "Option already exists: <name>".
\<close>

theorem add_param_option_duplicate:
  assumes "set_inv (m_parameter_options s)"
    and "e \<in> set (m_parameter_options s)"
    and "make_lower (longName e) = make_lower (longName opt)"
  shows "add_param_option s opt =
           (False, s\<lparr>m_errors := m_errors s @ [''Option already exists: '' @ longName opt]\<rparr>)"
  using set_insert_dup [OF assms]
  by (simp add: add_param_option_def logError_def)

theorem add_param_option_duplicate_witness:
  "set_inv (m_parameter_options (cmdParse_ctor [cmdOption_ctor ''BufferSize'' ''1000'' ''b''])) \<and>
   cmdOption_ctor ''BufferSize'' ''1000'' ''b''
     \<in> set (m_parameter_options (cmdParse_ctor [cmdOption_ctor ''BufferSize'' ''1000'' ''b''])) \<and>
   make_lower (longName (cmdOption_ctor ''BufferSize'' ''1000'' ''b''))
     = make_lower (longName (cmdOption_ctor ''BUFFERSIZE'' ''7'' ''x'')) \<and>
   add_param_option (cmdParse_ctor [cmdOption_ctor ''BufferSize'' ''1000'' ''b''])
       (cmdOption_ctor ''BUFFERSIZE'' ''7'' ''x'')
     = (False,
        \<lparr>m_executable_name = [], m_arguments = [],
         m_parameter_options =
           [\<lparr>longName = ''BufferSize'', shortName = ''b'', defaultValue = ''1000'',
             paramValue = []\<rparr>],
         m_errors = [''Option already exists: BUFFERSIZE'']\<rparr>)"
proof -
  let ?s = "cmdParse_ctor [cmdOption_ctor ''BufferSize'' ''1000'' ''b'']"
  let ?e = "cmdOption_ctor ''BufferSize'' ''1000'' ''b''"
  let ?opt = "cmdOption_ctor ''BUFFERSIZE'' ''7'' ''x''"
  have h1: "set_inv (m_parameter_options ?s)" by code_simp
  have h2: "?e \<in> set (m_parameter_options ?s)" by code_simp
  have h3: "make_lower (longName ?e) = make_lower (longName ?opt)" by code_simp
  have s: "?s = \<lparr>m_executable_name = [], m_arguments = [],
         m_parameter_options =
           [\<lparr>longName = ''BufferSize'', shortName = ''b'', defaultValue = ''1000'',
             paramValue = []\<rparr>],
         m_errors = []\<rparr>" by code_simp
  have l: "longName ?opt = ''BUFFERSIZE''" by code_simp
  have r: "add_param_option ?s ?opt =
      (False, ?s\<lparr>m_errors := m_errors ?s @ [''Option already exists: '' @ longName ?opt]\<rparr>)"
    by (rule add_param_option_duplicate [OF h1 h2 h3])
  have "add_param_option ?s ?opt =
      (False,
        \<lparr>m_executable_name = [], m_arguments = [],
         m_parameter_options =
           [\<lparr>longName = ''BufferSize'', shortName = ''b'', defaultValue = ''1000'',
             paramValue = []\<rparr>],
         m_errors = [''Option already exists: BUFFERSIZE'']\<rparr>)"
    unfolding r by (simp add: s l)
  with h1 h2 h3 show ?thesis by blast
qed

section \<open>Quoted values\<close>

text \<open>
  \<^verbatim>\<open>trim(value, '"')\<close> removes every leading and every trailing double quote, not one
  layer: a value between two layers of quotes loses both, so its content does not
  keep the inner quotes.
\<close>

theorem quoted_value_two_layers_counterexample:
  "init (cmdParse_ctor [cmdOption_ctor ''BufferSize'' ''1000'' ''b'',
                        cmdOption_ctor ''OutputFile'' ''output.txt'' ''o'']) 2
       [''Sample.exe'', ''--OutputFile='' @ [CHR 0x22, CHR 0x22] @ ''C://Temp//'' @ [CHR 0x22, CHR 0x22]]
     = Inr (True,
         \<lparr>m_executable_name = ''Sample.exe'',
          m_arguments =
            [''--OutputFile='' @ [CHR 0x22, CHR 0x22] @ ''C://Temp//'' @ [CHR 0x22, CHR 0x22]],
          m_parameter_options =
            [\<lparr>longName = ''BufferSize'', shortName = ''b'', defaultValue = ''1000'',
              paramValue = []\<rparr>,
             \<lparr>longName = ''OutputFile'', shortName = ''o'', defaultValue = ''output.txt'',
              paramValue = ''C://Temp//''\<rparr>],
          m_errors = []\<rparr>)
   \<and> trim ([CHR 0x22, CHR 0x22] @ ''C://Temp//'' @ [CHR 0x22, CHR 0x22]) (CHR 0x22)
       \<noteq> [CHR 0x22] @ ''C://Temp//'' @ [CHR 0x22]"
  by code_simp

text \<open>
  C7 (amended): value trimming strips all leading and all trailing double-quote
  characters from the extracted value. On every parser that declares \<open>OutputFile\<close>
  and has no arguments yet, the segment \<^verbatim>\<open>--OutputFile=\<close> followed by \<open>i\<close> quotes, a text \<open>w\<close> that neither starts
  nor ends with a quote or white space, and \<open>j\<close> quotes assigns exactly \<open>w\<close>; quotes
  inside \<open>w\<close> stay. With \<open>i = j = 1\<close> and \<^verbatim>\<open>C://Temp//\<close> this is the quoted path.
\<close>

theorem quoted_value_all_quotes_stripped:
  assumes "set_inv (m_parameter_options s)" and "m_arguments s = []"
    and "e \<in> set (m_parameter_options s)" and "longName e = ''OutputFile''"
    and "w \<noteq> []" and "\<not> isspace (hd w)" and "hd w \<noteq> CHR 0x22"
    and "\<not> isspace (last w)" and "last w \<noteq> CHR 0x22"
  shows "init s 2 [exe, ''--OutputFile='' @ replicate i (CHR 0x22) @ w @ replicate j (CHR 0x22)]
           = Inr (True,
               s\<lparr>m_executable_name := exe,
                 m_arguments :=
                   [''--OutputFile='' @ replicate i (CHR 0x22) @ w @ replicate j (CHR 0x22)],
                 m_parameter_options :=
                   map (\<lambda>opt. if opt = e then e\<lparr>paramValue := w\<rparr> else opt)
                     (m_parameter_options s)\<rparr>)"
proof -
  let ?v = "replicate i (CHR 0x22) @ w @ replicate j (CHR 0x22)"
  let ?t = "''--OutputFile='' @ ?v"
  have sp: "\<not> isspace (CHR 0x22)" by (simp add: isspace_def)
  have hv: "\<not> isspace (hd ?v)"
    unfolding hd_layers [OF assms(5)] using assms(6) sp by simp
  have lv: "\<not> isspace (last ?v)"
    unfolding last_layers [OF assms(5)] using assms(8) sp by simp
  have v1: "trim ?v (CHR 0x20) = ?v"
    using hv lv by (intro trim_space_id disjI2 conjI)
  have v2: "trim ?v (CHR 0x22) = w"
    using assms(5,7,9) by (intro trim_char_layers) simp_all
  have "?v \<noteq> []" using assms(5) by simp
  then have "last ?t = last ?v" by (simp only: last_append if_False)
  moreover have "\<not> isspace (hd ?t)" by (simp add: isspace_def)
  ultimately have t: "trim ?t (CHR 0x20) = ?t"
    using lv by (intro trim_space_id disjI2 conjI) simp_all
  have n: "\<forall>c\<in>set ''OutputFile''. \<not> is_delimiter c \<and> \<not> isspace c"
    by (simp add: is_delimiter_def isspace_def)
  have "init s (int (length ([]::string list)) + 2) [exe, ?t]
      = Inr (True, s\<lparr>m_executable_name := exe, m_arguments := [?t],
                  m_parameter_options :=
                    map (\<lambda>opt. if opt = e
                                then e\<lparr>paramValue := trim (trim ?v (CHR 0x20)) (CHR 0x22)\<rparr>
                                else opt)
                      (m_parameter_options s)\<rparr>)"
  proof (rule init_one_segment [where n = "''OutputFile''" and d = "CHR ''=''"])
    show "make_lower (longName e) = make_lower ''OutputFile''" by (simp add: assms(4))
    show "\<forall>a\<in>set [?t]. trim a (CHR 0x20) = a" using t by simp
  qed (use assms(1,2,3) n in \<open>simp_all add: is_delimiter_def\<close>)
  then show ?thesis by (simp add: v1 v2)
qed

theorem quoted_value_all_quotes_stripped_witness:
  "init (cmdParse_ctor [cmdOption_ctor ''BufferSize'' ''1000'' ''b'',
                        cmdOption_ctor ''OutputFile'' ''output.txt'' ''o'']) 2
       [''Sample.exe'', ''--OutputFile='' @ [CHR 0x22] @ ''C://Temp//'' @ [CHR 0x22]]
     = Inr (True,
         \<lparr>m_executable_name = ''Sample.exe'',
          m_arguments = [''--OutputFile='' @ [CHR 0x22] @ ''C://Temp//'' @ [CHR 0x22]],
          m_parameter_options =
            [\<lparr>longName = ''BufferSize'', shortName = ''b'', defaultValue = ''1000'',
              paramValue = []\<rparr>,
             \<lparr>longName = ''OutputFile'', shortName = ''o'', defaultValue = ''output.txt'',
              paramValue = ''C://Temp//''\<rparr>],
          m_errors = []\<rparr>)"
proof -
  let ?s = "cmdParse_ctor [cmdOption_ctor ''BufferSize'' ''1000'' ''b'',
                           cmdOption_ctor ''OutputFile'' ''output.txt'' ''o'']"
  let ?e = "cmdOption_ctor ''OutputFile'' ''output.txt'' ''o''"
  have h1: "set_inv (m_parameter_options ?s)" by code_simp
  have h2: "m_arguments ?s = []" by code_simp
  have h3: "?e \<in> set (m_parameter_options ?s)" by code_simp
  have h4: "longName ?e = ''OutputFile''" by code_simp
  have h5: "''C://Temp//'' \<noteq> []" by simp
  have h6: "\<not> isspace (hd ''C://Temp//'')" by (simp add: isspace_def)
  have h7: "hd ''C://Temp//'' \<noteq> CHR 0x22" by simp
  have h8: "\<not> isspace (last ''C://Temp//'')" by (simp add: isspace_def)
  have h9: "last ''C://Temp//'' \<noteq> CHR 0x22" by simp
  note t = quoted_value_all_quotes_stripped [OF h1 h2 h3 h4 h5 h6 h7 h8 h9, of "''Sample.exe''" 1 1]
  have s: "?s = \<lparr>m_executable_name = [], m_arguments = [],
          m_parameter_options =
            [\<lparr>longName = ''BufferSize'', shortName = ''b'', defaultValue = ''1000'',
              paramValue = []\<rparr>,
             \<lparr>longName = ''OutputFile'', shortName = ''o'', defaultValue = ''output.txt'',
              paramValue = []\<rparr>],
          m_errors = []\<rparr>" by code_simp
  have e: "?e = \<lparr>longName = ''OutputFile'', shortName = ''o'', defaultValue = ''output.txt'',
              paramValue = []\<rparr>" by code_simp
  show ?thesis
    using t unfolding s unfolding e by simp
qed

section \<open>init without arguments\<close>

text \<open>
  C8: for every argument count \<open>argc \<le> 0\<close>, whatever the token array holds, \<open>init\<close>
  returns false and appends exactly one error, "No arguments given to application";
  the executable name and the raw arguments are left as they were.
\<close>

theorem init_no_arguments:
  "argc \<le> 0 \<Longrightarrow>
     init s argc argv =
       Inr (False, s\<lparr>m_errors := m_errors s @ [''No arguments given to application'']\<rparr>)"
  by (simp add: init_def logError_def)

theorem init_no_arguments_witness:
  "(0::int) \<le> 0 \<and>
   init cmdParse_default 0 [''Sample.exe'', ''--BufferSize:23''] =
     Inr (False, \<lparr>m_executable_name = [], m_arguments = [], m_parameter_options = [],
                  m_errors = [''No arguments given to application'']\<rparr>)"
  using init_no_arguments [of 0 cmdParse_default "[''Sample.exe'', ''--BufferSize:23'']"]
  by (simp add: cmdParse_default_def)

section \<open>The help string\<close>

text \<open>
  What holds of the help string as the source builds it: for declared options with
  pairwise different lower-cased long names, in any declaration order, the registry
  holds exactly the declared options in strictly ascending order of the lower-cased
  long names, and the help string is the executable name, the header of the source,
  one line per option in that order, and the version line.
\<close>

lemma help_lines_sorted:
  assumes "distinct (map (\<lambda>opt. make_lower (longName opt)) optionVec)"
  shows
    "sorted_wrt (\<lambda>a b. string_less (make_lower (longName a)) (make_lower (longName b)))
        (m_parameter_options (cmdParse_ctor optionVec))
     \<and> set (m_parameter_options (cmdParse_ctor optionVec)) = set optionVec
     \<and> length (m_parameter_options (cmdParse_ctor optionVec)) = length optionVec
     \<and> get_helpstring (cmdParse_ctor optionVec) =
         '' [options]\<newline> where options are:\<newline>''
           @ concat (map (\<lambda>opt. ''    -'' @ shortName opt @ '', --'' @ longName opt @ ''\<newline>'')
                      (m_parameter_options (cmdParse_ctor optionVec)))
           @ ''\<newline>\<newline>(version 1.0)''
     \<and> (\<forall>argc argv ok s'.
          0 < argc \<and> init (cmdParse_ctor optionVec) argc argv = Inr (ok, s') \<longrightarrow>
          get_helpstring s' =
            argv ! 0 @ '' [options]\<newline> where options are:\<newline>''
              @ concat (map (\<lambda>opt. ''    -'' @ shortName opt @ '', --'' @ longName opt @ ''\<newline>'')
                         (m_parameter_options (cmdParse_ctor optionVec)))
              @ ''\<newline>\<newline>(version 1.0)'')
     \<and> (\<forall>vec'. set vec' = set optionVec
                 \<and> distinct (map (\<lambda>opt. make_lower (longName opt)) vec') \<longrightarrow>
           m_parameter_options (cmdParse_ctor vec') = m_parameter_options (cmdParse_ctor optionVec))"
proof -
  let ?r = "m_parameter_options (cmdParse_ctor optionVec)"
  have less: "(\<lambda>a b. string_less (make_lower (longName a)) (make_lower (longName b))) = option_less"
    by (simp add: option_less_def fun_eq_iff)
  have line: "(\<lambda>opt. ''    -'' @ shortName opt @ '', --'' @ longName opt @ ''\<newline>'') = help_line"
    by (simp add: help_line_def fun_eq_iff)
  note reg = ctor_registry [OF assms]
  have h0: "get_helpstring (cmdParse_ctor optionVec) =
         '' [options]\<newline> where options are:\<newline>'' @ concat (map help_line ?r)
           @ ''\<newline>\<newline>(version 1.0)''"
    by (simp add: get_helpstring_concat reg(4))
  have h1: "get_helpstring s' =
            argv ! 0 @ '' [options]\<newline> where options are:\<newline>''
              @ concat (map help_line ?r) @ ''\<newline>\<newline>(version 1.0)''"
    if "0 < argc" and "init (cmdParse_ctor optionVec) argc argv = Inr (ok, s')"
    for argc argv ok s'
  proof -
    note k = init_keeps [OF ctor_inv that(2)]
    from k have "map help_line (m_parameter_options s') = map help_line ?r"
      by (intro help_lines_keep) simp
    moreover from k that(1) have "m_executable_name s' = argv ! 0"
      by simp
    ultimately show ?thesis by (simp add: get_helpstring_concat)
  qed
  have h2: "m_parameter_options (cmdParse_ctor vec') = ?r"
    if "set vec' = set optionVec" and "distinct (map (\<lambda>opt. make_lower (longName opt)) vec')"
    for vec'
    using ctor_registry(1,2) [OF that(2)] reg(1,2) that(1)
    by (intro sorted_wrt_option_less_unique) simp_all
  show ?thesis
    unfolding less line
  proof (intro conjI allI impI)
    show "sorted_wrt option_less ?r" by (rule reg(1))
    show "set ?r = set optionVec" by (rule reg(2))
    show "length ?r = length optionVec" by (rule reg(3))
    show "get_helpstring (cmdParse_ctor optionVec) =
         '' [options]\<newline> where options are:\<newline>'' @ concat (map help_line ?r)
           @ ''\<newline>\<newline>(version 1.0)''" by (rule h0)
  next
    fix argc :: int and argv ok s'
    assume "0 < argc \<and> init (cmdParse_ctor optionVec) argc argv = Inr (ok, s')"
    then show "get_helpstring s' =
            argv ! 0 @ '' [options]\<newline> where options are:\<newline>''
              @ concat (map help_line ?r) @ ''\<newline>\<newline>(version 1.0)''"
      using h1 by blast
  next
    fix vec'
    assume "set vec' = set optionVec \<and> distinct (map (\<lambda>opt. make_lower (longName opt)) vec')"
    then show "m_parameter_options (cmdParse_ctor vec') = ?r"
      using h2 by blast
  qed
qed

text \<open>
  C9: the help string should be the header \<^verbatim>\<open>"<exe> [options]\nwhere options are:\n"\<close>,
  one line per declared option in alphabetical order, and the version line, as the
  doc comment of \<^verbatim>\<open>get_helpstring\<close> shows it. The literal of the source has a space
  before "where": after \<open>OutputFile\<close> and \<open>BufferSize\<close> are declared and
  \<^verbatim>\<open>init(1, {"Sample.exe"})\<close>, the second line of the help string is
  \<^verbatim>\<open>" where options are:"\<close>, and the help string does not start with the header.
\<close>

theorem get_helpstring_header_space:
  "init (cmdParse_ctor [cmdOption_ctor ''OutputFile'' ''output.txt'' ''o'',
                        cmdOption_ctor ''BufferSize'' ''1000'' ''b'']) 1 [''Sample.exe'']
     = Inr (True,
         \<lparr>m_executable_name = ''Sample.exe'',
          m_arguments = [],
          m_parameter_options =
            [\<lparr>longName = ''BufferSize'', shortName = ''b'', defaultValue = ''1000'',
              paramValue = []\<rparr>,
             \<lparr>longName = ''OutputFile'', shortName = ''o'', defaultValue = ''output.txt'',
              paramValue = []\<rparr>],
          m_errors = []\<rparr>)
   \<and> get_helpstring
         \<lparr>m_executable_name = ''Sample.exe'',
          m_arguments = [],
          m_parameter_options =
            [\<lparr>longName = ''BufferSize'', shortName = ''b'', defaultValue = ''1000'',
              paramValue = []\<rparr>,
             \<lparr>longName = ''OutputFile'', shortName = ''o'', defaultValue = ''output.txt'',
              paramValue = []\<rparr>],
          m_errors = []\<rparr>
       = ''Sample.exe [options]\<newline> where options are:\<newline>    -b, --BufferSize\<newline>    -o, --OutputFile\<newline>\<newline>\<newline>(version 1.0)''
   \<and> \<not> prefix ''Sample.exe [options]\<newline>where options are:\<newline>''
         (get_helpstring
           \<lparr>m_executable_name = ''Sample.exe'',
            m_arguments = [],
            m_parameter_options =
              [\<lparr>longName = ''BufferSize'', shortName = ''b'', defaultValue = ''1000'',
                paramValue = []\<rparr>,
               \<lparr>longName = ''OutputFile'', shortName = ''o'', defaultValue = ''output.txt'',
                paramValue = []\<rparr>],
            m_errors = []\<rparr>)"
  by code_simp

section \<open>has\_value\<close>

text \<open>
  C10: \<open>has_value\<close> returns true exactly when \<open>paramValue\<close> is blank (empty or white
  space only): true for an option as constructed, which no parse has matched, and
  false for an option that holds a value with a character that is not white space.
\<close>

theorem has_value_iff_blank:
  "(has_value opt \<longleftrightarrow> (\<forall>c\<in>set (paramValue opt). isspace c)) \<and>
   has_value (cmdOption_ctor optionName dflt optionNameShort) \<and>
   ((\<exists>c\<in>set v. \<not> isspace c) \<longrightarrow> \<not> has_value (opt\<lparr>paramValue := v\<rparr>))"
  by (auto simp: has_value_def is_blank_def cmdOption_ctor_def list_all_iff)

theorem has_value_iff_blank_witness:
  "has_value (cmdOption_ctor ''BufferSize'' ''1000'' ''b'') \<and>
   (\<exists>c\<in>set ''23''. \<not> isspace c) \<and>
   \<not> has_value ((cmdOption_ctor ''BufferSize'' ''1000'' ''b'')\<lparr>paramValue := ''23''\<rparr>)"
proof -
  have h: "\<exists>c\<in>set ''23''. \<not> isspace c" by (simp add: isspace_def)
  show ?thesis
    using h has_value_iff_blank [of "cmdOption_ctor ''BufferSize'' ''1000'' ''b''"
        "''BufferSize''" "''1000''" "''b''" "''23''"]
    by blast
qed

end
